theory Spec2Isabelle
  imports Complex_Main
begin

section \<open>The rating store\<close>

text \<open>
  The \<^verbatim>\<open>Image\<close> table of \<^verbatim>\<open>prisma/migrations/.../migration.sql\<close>, with the
  columns that \<^verbatim>\<open>app/routes/compare.server.ts\<close> selects and writes: \<^verbatim>\<open>id\<close> (SERIAL),
  \<^verbatim>\<open>name\<close>, \<^verbatim>\<open>url\<close> and \<^verbatim>\<open>elo\<close> (DOUBLE PRECISION). The columns \<^verbatim>\<open>createdAt\<close> and
  \<^verbatim>\<open>updatedAt\<close> are maintained by the store and are neither read nor written by the code
  modelled here; they are left out.

  Ratings are JavaScript numbers (IEEE doubles) in the source. They are modelled as real
  numbers: \<^verbatim>\<open>Math.pow(10, x)\<close> is \<open>10 powr x\<close>, and the rounding of double arithmetic is
  not modelled.

  The table is a list of rows in the order in which the store enumerates them
  (\<^verbatim>\<open>findFirst({skip})\<close> has no \<^verbatim>\<open>orderBy\<close>).
\<close>

record image =
  image_id :: int
  name :: string
  url :: string
  elo :: real

text \<open>
  The value of \<^verbatim>\<open>Number(formData.get("winnerId"))\<close>: a JavaScript number is \<^verbatim>\<open>NaN\<close>, an
  infinity or a finite value. \<^verbatim>\<open>Number(null)\<close> (an absent form field) and \<^verbatim>\<open>Number("")\<close>
  are \<open>Fin 0\<close>, \<^verbatim>\<open>Number("1.5")\<close> is \<open>Fin (3/2)\<close>, \<^verbatim>\<open>Number("abc")\<close> is \<open>NaN\<close>.
\<close>

datatype js_number = NaN | Infinity | NegInfinity | Fin real

fun isNaN :: "js_number \<Rightarrow> bool" where
  "isNaN NaN = True"
| "isNaN _ = False"

text \<open>The operator \<^verbatim>\<open>===\<close> on numbers: \<^verbatim>\<open>NaN\<close> is equal to nothing.\<close>

definition strictEq :: "js_number \<Rightarrow> js_number \<Rightarrow> bool" where
  "strictEq a b = (\<not> isNaN a \<and> \<not> isNaN b \<and> a = b)"

text \<open>
  Everything the modelled code can throw: \<^verbatim>\<open>new Error(message)\<close>,
  \<^verbatim>\<open>new Response(body, {status})\<close>, and an error raised by the Prisma client.
\<close>

datatype thrown = Error string | Response string nat | PrismaClientError

text \<open>A row is addressed by \<^verbatim>\<open>where: { id }\<close> with the number taken from the form.\<close>

definition idMatches :: "js_number \<Rightarrow> image \<Rightarrow> bool" where
  "idMatches n row = (n = Fin (of_int (image_id row)))"

definition isIntegerId :: "js_number \<Rightarrow> bool" where
  "isIntegerId n = (case n of Fin r \<Rightarrow> r = of_int \<lfloor>r\<rfloor> | _ \<Rightarrow> False)"

text \<open>\<^verbatim>\<open>db.image.findFirst({ skip })\<close>: the row at that offset, or \<^verbatim>\<open>null\<close>.\<close>

definition findFirst :: "image list \<Rightarrow> nat \<Rightarrow> image option" where
  "findFirst db skip = (if skip < length db then Some (db ! skip) else None)"

text \<open>
  \<^verbatim>\<open>db.image.findUnique({ where: { id } })\<close>: the row with that id or \<^verbatim>\<open>null\<close>. The column
  is an integer column; the client rejects a number that is not an integer. (Whether it
  rejects or finds nothing, \<open>action\<close> below ends in the same \<^verbatim>\<open>catch\<close>.)
\<close>

definition findUnique :: "image list \<Rightarrow> js_number \<Rightarrow> thrown + image option" where
  "findUnique db n =
     (if isIntegerId n then Inr (find (idMatches n) db) else Inl PrismaClientError)"

text \<open>
  \<^verbatim>\<open>db.image.update({ where: { id }, data: { elo } })\<close>: writes the \<^verbatim>\<open>elo\<close> column of the
  row with that id (\<open>setElo\<close> is its effect on one row), and throws when there is no such
  row.
\<close>

definition setElo :: "js_number \<Rightarrow> real \<Rightarrow> image \<Rightarrow> image" where
  "setElo n newElo row = (if idMatches n row then row\<lparr>elo := newElo\<rparr> else row)"

definition update :: "image list \<Rightarrow> js_number \<Rightarrow> real \<Rightarrow> thrown + image list" where
  "update db n newElo =
     (if \<exists>row \<in> set db. idMatches n row
      then Inr (map (setElo n newElo) db)
      else Inl PrismaClientError)"

text \<open>
  \<^verbatim>\<open>db.$transaction([update, update])\<close>: both updates in order, or none. \<open>storeFails\<close>
  stands for a failure of the store itself (connection lost, deadlock); a failed
  transaction yields no new table, so the caller keeps the old one.
\<close>

definition transaction ::
  "bool \<Rightarrow> image list \<Rightarrow> js_number \<Rightarrow> real \<Rightarrow> js_number \<Rightarrow> real \<Rightarrow> thrown + image list" where
  "transaction storeFails db winnerId newWinnerElo loserId newLoserElo =
     (if storeFails then Inl PrismaClientError
      else case update db winnerId newWinnerElo of
             Inl e \<Rightarrow> Inl e
           | Inr db1 \<Rightarrow> update db1 loserId newLoserElo)"

section \<open>The Elo calculation\<close>

text \<open>Lines 189 to 194 of \<^verbatim>\<open>action\<close>: the new ratings of the winner and of the loser.\<close>

definition eloUpdate :: "real \<Rightarrow> real \<Rightarrow> real \<times> real" where
  "eloUpdate winnerElo loserElo =
     (let K = 32;
          expectedWinner = 1 / (1 + 10 powr ((loserElo - winnerElo) / 400));
          expectedLoser = 1 - expectedWinner;
          newWinnerElo = max 0 (winnerElo + K * (1 - expectedWinner));
          newLoserElo = max 0 (loserElo + K * (0 - expectedLoser))
      in (newWinnerElo, newLoserElo))"

section \<open>The pair sampler\<close>

text \<open>
  \<^verbatim>\<open>loader\<close> draws from \<^verbatim>\<open>Math.random()\<close>; \<open>rng i\<close> is the value of the \<open>i\<close>-th call
  (counted from 0). The table does not change while the sampler runs, and the store
  answers every read. \<^verbatim>\<open>Math.floor(Math.random() * totalImages)\<close>:
\<close>

definition randomOffset :: "real \<Rightarrow> nat \<Rightarrow> nat" where
  "randomOffset r totalImages = nat \<lfloor>r * real totalImages\<rfloor>"

text \<open>
  The loop \<^verbatim>\<open>while (randomOffset2 === randomOffset1) randomOffset2 = ...\<close>. It has no
  bound in the source, so it is a partial function: \<open>None\<close> is a loop that never ends.
  \<open>i\<close> is the index of the next call of \<^verbatim>\<open>Math.random()\<close>.
\<close>

partial_function (option) redraw :: "(nat \<Rightarrow> real) \<Rightarrow> nat \<Rightarrow> nat \<Rightarrow> nat \<Rightarrow> nat \<Rightarrow> nat option" where
  "redraw rng totalImages randomOffset1 randomOffset2 i =
     (if randomOffset2 = randomOffset1
      then redraw rng totalImages randomOffset1 (randomOffset (rng i) totalImages) (Suc i)
      else Some randomOffset2)"

definition loader :: "image list \<Rightarrow> (nat \<Rightarrow> real) \<Rightarrow> (thrown + image \<times> image) option" where
  "loader db rng =
     (let totalImages = length db in
      if totalImages < 2 then Some (Inl (Error ''Need at least 2 images in database''))
      else
        let randomOffset1 = randomOffset (rng 0) totalImages in
        case redraw rng totalImages randomOffset1 (randomOffset (rng 1) totalImages) 2 of
          None \<Rightarrow> None
        | Some randomOffset2 \<Rightarrow>
            (case (findFirst db randomOffset1, findFirst db randomOffset2) of
               (Some imageA, Some imageB) \<Rightarrow> Some (Inr (imageA, imageB))
             | _ \<Rightarrow> Some (Inl (Error ''Failed to load images''))))"

section \<open>The rate limiter\<close>

text \<open>
  \<^verbatim>\<open>rateLimitMap\<close> and \<^verbatim>\<open>sessionRateLimitMap\<close>: maps from a key to a bucket of request
  times (milliseconds, as \<^verbatim>\<open>Date.now()\<close> returns them).
\<close>

record bucket =
  requests :: "int list"
  lastCleanup :: int

type_synonym buckets = "string \<rightharpoonup> bucket"

record server =
  images :: "image list"
  rateLimitMap :: buckets
  sessionRateLimitMap :: buckets

text \<open>
  One of the two loops of \<^verbatim>\<open>cleanupRateLimit\<close>. Every entry is treated on its own, so the
  loop over the entries is a pointwise transformation of the map.
\<close>

definition cleanupBuckets :: "int \<Rightarrow> buckets \<Rightarrow> buckets" where
  "cleanupBuckets now m =
     (\<lambda>key. case m key of
        None \<Rightarrow> None
      | Some data \<Rightarrow>
          if now - lastCleanup data > 5 * 60 * 1000 then
            (let kept = filter (\<lambda>time. now - time < 60 * 1000) (requests data) in
             if length kept = 0 then None
             else Some (data\<lparr>requests := kept, lastCleanup := now\<rparr>))
          else Some data)"

definition cleanupRateLimit :: "int \<Rightarrow> server \<Rightarrow> server" where
  "cleanupRateLimit now st =
     st\<lparr>rateLimitMap := cleanupBuckets now (rateLimitMap st),
        sessionRateLimitMap := cleanupBuckets now (sessionRateLimitMap st)\<rparr>"

text \<open>
  \<^verbatim>\<open>if (!map.has(key)) map.set(key, { requests: [], lastCleanup: now })\<close> followed by
  \<^verbatim>\<open>map.get(key)!\<close>.
\<close>

definition ensureBucket :: "buckets \<Rightarrow> string \<Rightarrow> int \<Rightarrow> buckets" where
  "ensureBucket m key now =
     (case m key of
        None \<Rightarrow> m(key \<mapsto> \<lparr>requests = [], lastCleanup = now\<rparr>)
      | Some data \<Rightarrow> m)"

definition getBucket :: "buckets \<Rightarrow> string \<Rightarrow> int \<Rightarrow> bucket" where
  "getBucket m key now =
     (case m key of
        None \<Rightarrow> \<lparr>requests = [], lastCleanup = now\<rparr>
      | Some data \<Rightarrow> data)"

text \<open>\<^verbatim>\<open>data.requests.filter(time => now - time < windowMs)\<close>\<close>

definition recentRequests :: "int \<Rightarrow> int \<Rightarrow> bucket \<Rightarrow> int list" where
  "recentRequests windowMs now data = filter (\<lambda>time. now - time < windowMs) (requests data)"

section \<open>The vote handler\<close>

text \<open>
  What \<^verbatim>\<open>action\<close> reads from the request: the two form fields after \<^verbatim>\<open>Number(...)\<close>,
  the \<^verbatim>\<open>sessionId\<close> stored in the session cookie (if any), and the three headers from
  which the client address is taken.
\<close>

record request =
  winnerIdField :: js_number
  loserIdField :: js_number
  sessionCookie :: "string option"
  x_forwarded_for :: "string option"
  x_real_ip :: "string option"
  cf_connecting_ip :: "string option"

text \<open>
  What \<^verbatim>\<open>action\<close> reads from its environment: \<^verbatim>\<open>crypto.randomUUID()\<close>, \<^verbatim>\<open>Date.now()\<close> in
  \<^verbatim>\<open>action\<close>, \<^verbatim>\<open>Math.random()\<close>, the later \<^verbatim>\<open>Date.now()\<close> inside \<^verbatim>\<open>cleanupRateLimit\<close>,
  and whether the store fails while reading or while writing.
\<close>

record env =
  randomUUID :: string
  dateNow :: int
  mathRandom :: real
  cleanupNow :: int
  storeReadFails :: bool
  storeWriteFails :: bool

text \<open>\<^verbatim>\<open>a || b\<close> where \<open>a\<close> is a string, \<^verbatim>\<open>null\<close> or \<^verbatim>\<open>undefined\<close>: the empty string is falsy.\<close>

fun orElse :: "string option \<Rightarrow> string \<Rightarrow> string" where
  "orElse None b = b"
| "orElse (Some a) b = (if a = [] then b else a)"

definition clientIP :: "request \<Rightarrow> string" where
  "clientIP req =
     orElse (map_option (takeWhile (\<lambda>c. c \<noteq> CHR '','')) (x_forwarded_for req))
       (orElse (x_real_ip req) (orElse (cf_connecting_ip req) ''unknown''))"

text \<open>
  The three local constants \<^verbatim>\<open>windowMs\<close>, \<^verbatim>\<open>maxRequestsPerIP\<close> and
  \<^verbatim>\<open>maxRequestsPerSession\<close> of \<^verbatim>\<open>action\<close> are gathered in a record, so that the limiter can
  be stated for any maximum; \<open>action\<close> is \<open>actionWith\<close> at the values of the source.
\<close>

record limits =
  windowMs :: int
  maxRequestsPerIP :: nat
  maxRequestsPerSession :: nat

definition sourceLimits :: limits where
  "sourceLimits = \<lparr>windowMs = 60 * 1000, maxRequestsPerIP = 30, maxRequestsPerSession = 20\<rparr>"

text \<open>The response of a successful vote: \<^verbatim>\<open>{ success: true }\<close> and the committed session id.\<close>

datatype vote_response = JsonSuccess string

text \<open>
  The \<^verbatim>\<open>try\<close> block of \<^verbatim>\<open>action\<close> (lines 173 to 206): what it throws, or the table after
  the transaction.
\<close>

definition tryBlock :: "env \<Rightarrow> image list \<Rightarrow> js_number \<Rightarrow> js_number \<Rightarrow> thrown + image list" where
  "tryBlock e db winnerId loserId =
     (if storeReadFails e then Inl PrismaClientError
      else case findUnique db winnerId of
        Inl err \<Rightarrow> Inl err
      | Inr winner \<Rightarrow>
         (case findUnique db loserId of
            Inl err \<Rightarrow> Inl err
          | Inr loser \<Rightarrow>
             (case (winner, loser) of
                (Some w, Some l) \<Rightarrow>
                  (let (newWinnerElo, newLoserElo) = eloUpdate (elo w) (elo l)
                   in transaction (storeWriteFails e) db winnerId newWinnerElo loserId newLoserElo)
              | _ \<Rightarrow> Inl (Error ''Images not found''))))"

text \<open>
  Three fragments of \<^verbatim>\<open>action\<close>: the validation of line 111, the session id of lines
  117 to 122, and the cleanup of lines 136 to 138, which runs for one request in ten.
\<close>

definition invalidIds :: "request \<Rightarrow> bool" where
  "invalidIds req =
     (isNaN (winnerIdField req) \<or> isNaN (loserIdField req)
      \<or> strictEq (winnerIdField req) (loserIdField req))"

definition sessionIdOf :: "request \<Rightarrow> env \<Rightarrow> string" where
  "sessionIdOf req e = orElse (sessionCookie req) (randomUUID e)"

definition afterCleanup :: "env \<Rightarrow> server \<Rightarrow> server" where
  "afterCleanup e st = (if mathRandom e < 0.1 then cleanupRateLimit (cleanupNow e) st else st)"

definition actionWith ::
  "limits \<Rightarrow> server \<Rightarrow> request \<Rightarrow> env \<Rightarrow> (thrown + vote_response) \<times> server" where
  "actionWith cfg st req e =
     (let winnerId = winnerIdField req; loserId = loserIdField req in
      if invalidIds req
      then (Inl (Error ''Invalid image IDs''), st)
      else
        let sessionId = sessionIdOf req e;
            ip = clientIP req;
            now = dateNow e;
            st1 = afterCleanup e st;
            ipMap = ensureBucket (rateLimitMap st1) ip now;
            ipRateData = getBucket ipMap ip now;
            recentIPRequests = recentRequests (windowMs cfg) now ipRateData
        in
        if length recentIPRequests \<ge> maxRequestsPerIP cfg
        then (Inl (Response ''Rate limit exceeded. Please slow down.'' 429),
              st1\<lparr>rateLimitMap := ipMap\<rparr>)
        else
          let sessionMap = ensureBucket (sessionRateLimitMap st1) sessionId now;
              sessionRateData = getBucket sessionMap sessionId now;
              recentSessionRequests = recentRequests (windowMs cfg) now sessionRateData
          in
          if length recentSessionRequests \<ge> maxRequestsPerSession cfg
          then (Inl (Response ''Rate limit exceeded for this session. Please slow down.'' 429),
                st1\<lparr>rateLimitMap := ipMap, sessionRateLimitMap := sessionMap\<rparr>)
          else
            let st2 = st1\<lparr>rateLimitMap :=
                            ipMap(ip \<mapsto> ipRateData\<lparr>requests := recentIPRequests @ [now]\<rparr>),
                          sessionRateLimitMap :=
                            sessionMap(sessionId \<mapsto>
                              sessionRateData\<lparr>requests := recentSessionRequests @ [now]\<rparr>)\<rparr>
            in
            case tryBlock e (images st2) winnerId loserId of
              Inl err \<Rightarrow> (Inl (Error ''Failed to update ratings. Please try again.''), st2)
            | Inr db \<Rightarrow> (Inr (JsonSuccess sessionId), st2\<lparr>images := db\<rparr>))"

definition action :: "server \<Rightarrow> request \<Rightarrow> env \<Rightarrow> (thrown + vote_response) \<times> server" where
  "action = actionWith sourceLimits"

text \<open>
  The timestamps of a key that are still inside the window when a request arrives: the
  lists \<^verbatim>\<open>recentIPRequests\<close> and \<^verbatim>\<open>recentSessionRequests\<close> of \<^verbatim>\<open>action\<close>.
\<close>

definition ipRecent :: "limits \<Rightarrow> server \<Rightarrow> request \<Rightarrow> env \<Rightarrow> int list" where
  "ipRecent cfg st req e =
     recentRequests (windowMs cfg) (dateNow e)
       (getBucket (rateLimitMap (afterCleanup e st)) (clientIP req) (dateNow e))"

definition sessionRecent :: "limits \<Rightarrow> server \<Rightarrow> request \<Rightarrow> env \<Rightarrow> int list" where
  "sessionRecent cfg st req e =
     recentRequests (windowMs cfg) (dateNow e)
       (getBucket (sessionRateLimitMap (afterCleanup e st)) (sessionIdOf req e) (dateNow e))"

text \<open>
  The state \<^verbatim>\<open>action\<close> has reached when both trackers are updated (line 169), before the
  \<^verbatim>\<open>try\<close> block.
\<close>

definition recorded :: "limits \<Rightarrow> server \<Rightarrow> request \<Rightarrow> env \<Rightarrow> server" where
  "recorded cfg st req e =
     (afterCleanup e st)\<lparr>
        rateLimitMap :=
          (ensureBucket (rateLimitMap (afterCleanup e st)) (clientIP req) (dateNow e))
          (clientIP req \<mapsto>
             (getBucket (rateLimitMap (afterCleanup e st)) (clientIP req) (dateNow e))
               \<lparr>requests := ipRecent cfg st req e @ [dateNow e]\<rparr>),
        sessionRateLimitMap :=
          (ensureBucket (sessionRateLimitMap (afterCleanup e st)) (sessionIdOf req e) (dateNow e))
          (sessionIdOf req e \<mapsto>
             (getBucket (sessionRateLimitMap (afterCleanup e st)) (sessionIdOf req e) (dateNow e))
               \<lparr>requests := sessionRecent cfg st req e @ [dateNow e]\<rparr>)\<rparr>"

text \<open>A sequence of vote requests, served one after the other.\<close>

fun votes ::
  "limits \<Rightarrow> server \<Rightarrow> (request \<times> env) list \<Rightarrow> (thrown + vote_response) list \<times> server" where
  "votes cfg st [] = ([], st)"
| "votes cfg st ((req, e) # rest) =
     (let (r, st1) = actionWith cfg st req e;
          (rs, st2) = votes cfg st1 rest
      in (r # rs, st2))"

text \<open>A thrown \<^verbatim>\<open>Response\<close> with status 429.\<close>

fun rateLimited :: "thrown + vote_response \<Rightarrow> bool" where
  "rateLimited (Inl (Response body status)) = (status = 429)"
| "rateLimited _ = False"

text \<open>The request times that a map holds for a key (none when the key has no bucket).\<close>

definition timestamps :: "buckets \<Rightarrow> string \<Rightarrow> int list" where
  "timestamps m key = (case m key of None \<Rightarrow> [] | Some data \<Rightarrow> requests data)"

section \<open>Example states\<close>

text \<open>
  Three images, two of them at the default rating, no request seen yet, a vote of the
  first image against the second, and the times of two requests.
\<close>

definition img1 :: image where
  "img1 = \<lparr>image_id = 1, name = ''a'', url = ''/external-images/a.webp'', elo = 1200\<rparr>"
definition img2 :: image where
  "img2 = \<lparr>image_id = 2, name = ''b'', url = ''/external-images/b.webp'', elo = 1200\<rparr>"
definition img3 :: image where
  "img3 = \<lparr>image_id = 3, name = ''c'', url = ''/external-images/c.webp'', elo = 1350\<rparr>"
definition server0 :: server where
  "server0 = \<lparr>images = [img1, img2, img3], rateLimitMap = Map.empty,
     sessionRateLimitMap = Map.empty\<rparr>"
definition voteAB :: request where
  "voteAB = \<lparr>winnerIdField = Fin 1, loserIdField = Fin 2, sessionCookie = None,
     x_forwarded_for = Some ''203.0.113.7, 10.0.0.1'', x_real_ip = None, cf_connecting_ip = None\<rparr>"
definition env0 :: env where
  "env0 = \<lparr>randomUUID = ''u-1'', dateNow = 1000, mathRandom = 0.5, cleanupNow = 1000,
     storeReadFails = False, storeWriteFails = False\<rparr>"
definition env1 :: env where
  "env1 = \<lparr>randomUUID = ''u-2'', dateNow = 2000, mathRandom = 0.5, cleanupNow = 2000,
     storeReadFails = False, storeWriteFails = False\<rparr>"
definition voteAB' :: request where
  "voteAB' = voteAB\<lparr>sessionCookie := Some ''u-1''\<rparr>"
definition server1 :: server where
  "server1 = snd (action server0 voteAB env0)"

text \<open>
  A table of two images and a table of one; a generator that always returns 0, and one
  that returns 0 six times and 0.6 from then on.
\<close>

definition twoImages :: "image list" where
  "twoImages = [img1, img2]"
definition stuckRng :: "nat \<Rightarrow> real" where
  "stuckRng i = 0"
definition lateRng :: "nat \<Rightarrow> real" where
  "lateRng i = (if i < 6 then 0 else 0.6)"

text \<open>
  Votes with ids that are not the ids of two different images: a field that is not a
  number, twice the same id, a number that is not an integer (the form value "1.5"), and
  an id that no row has.
\<close>

definition voteNaN :: request where
  "voteNaN = voteAB\<lparr>winnerIdField := NaN\<rparr>"
definition voteSame :: request where
  "voteSame = voteAB\<lparr>loserIdField := Fin 1\<rparr>"
definition voteFraction :: request where
  "voteFraction = voteAB\<lparr>winnerIdField := Fin (3 / 2)\<rparr>"
definition voteGone :: request where
  "voteGone = voteAB\<lparr>loserIdField := Fin 9\<rparr>"
definition envWriteFails :: env where
  "envWriteFails = env0\<lparr>storeWriteFails := True\<rparr>"

text \<open>
  A limiter with a window of 60 s and a maximum of 3, and one client that sends four votes
  one second apart and a fifth one more than a minute later. Every request also runs the
  cleanup, one millisecond after it has read the clock.
\<close>

definition limits3 :: limits where
  "limits3 = \<lparr>windowMs = 60 * 1000, maxRequestsPerIP = 3, maxRequestsPerSession = 3\<rparr>"
definition envAt :: "int \<Rightarrow> env" where
  "envAt t = \<lparr>randomUUID = ''u-9'', dateNow = t, mathRandom = 0.05, cleanupNow = t + 1,
     storeReadFails = False, storeWriteFails = False\<rparr>"
definition burst :: "(request \<times> env) list" where
  "burst = [(voteAB', envAt 1000), (voteAB', envAt 2000), (voteAB', envAt 3000),
            (voteAB', envAt 4000)]"

section \<open>Basic facts\<close>

subsection \<open>The Elo calculation\<close>


lemma eloUpdate_fst:
  "fst (eloUpdate w l) = max 0 (w + 32 * (1 - 1 / (1 + 10 powr ((l - w) / 400))))"
  by (simp add: eloUpdate_def Let_def)

lemma eloUpdate_snd:
  "snd (eloUpdate w l) = max 0 (l + 32 * (0 - (1 - 1 / (1 + 10 powr ((l - w) / 400)))))"
  by (simp add: eloUpdate_def Let_def)

lemma eloUpdate_1200: "eloUpdate 1200 1200 = (1216, 1184)"
  by (simp add: eloUpdate_def Let_def)


subsection \<open>The branches of the vote handler\<close>

lemma getBucket_ensureBucket [simp]: "getBucket (ensureBucket m k n) k n = getBucket m k n"
  by (simp add: getBucket_def ensureBucket_def split: option.splits)

lemma images_afterCleanup [simp]: "images (afterCleanup e st) = images st"
  by (simp add: afterCleanup_def cleanupRateLimit_def)

lemma actionWith_invalid:
  "invalidIds req \<Longrightarrow> actionWith cfg st req e = (Inl (Error ''Invalid image IDs''), st)"
  by (simp add: actionWith_def)

lemma actionWith_ip_limited:
  assumes "\<not> invalidIds req" "maxRequestsPerIP cfg \<le> length (ipRecent cfg st req e)"
  shows "actionWith cfg st req e =
     (Inl (Response ''Rate limit exceeded. Please slow down.'' 429),
      (afterCleanup e st)\<lparr>rateLimitMap :=
         ensureBucket (rateLimitMap (afterCleanup e st)) (clientIP req) (dateNow e)\<rparr>)"
  using assms by (simp add: actionWith_def ipRecent_def Let_def)

lemma actionWith_session_limited:
  assumes "\<not> invalidIds req" "length (ipRecent cfg st req e) < maxRequestsPerIP cfg"
    "maxRequestsPerSession cfg \<le> length (sessionRecent cfg st req e)"
  shows "actionWith cfg st req e =
     (Inl (Response ''Rate limit exceeded for this session. Please slow down.'' 429),
      (afterCleanup e st)\<lparr>rateLimitMap :=
         ensureBucket (rateLimitMap (afterCleanup e st)) (clientIP req) (dateNow e),
        sessionRateLimitMap :=
         ensureBucket (sessionRateLimitMap (afterCleanup e st)) (sessionIdOf req e) (dateNow e)\<rparr>)"
  using assms by (simp add: actionWith_def ipRecent_def sessionRecent_def Let_def)

lemma actionWith_admitted:
  assumes "\<not> invalidIds req" "length (ipRecent cfg st req e) < maxRequestsPerIP cfg"
    "length (sessionRecent cfg st req e) < maxRequestsPerSession cfg"
  shows "actionWith cfg st req e =
     (case tryBlock e (images st) (winnerIdField req) (loserIdField req) of
        Inl err \<Rightarrow> (Inl (Error ''Failed to update ratings. Please try again.''), recorded cfg st req e)
      | Inr db \<Rightarrow> (Inr (JsonSuccess (sessionIdOf req e)), (recorded cfg st req e)\<lparr>images := db\<rparr>))"
  using assms by (simp add: actionWith_def ipRecent_def sessionRecent_def recorded_def Let_def split: sum.split)

lemma idMatches_elo [simp]: "idMatches n (row\<lparr>elo := x\<rparr>) = idMatches n row"
  by (simp add: idMatches_def)

lemma idMatches_setElo [simp]: "idMatches n (setElo m x row) = idMatches n row"
  by (simp add: setElo_def)

lemma update_eq:
  "update db n x = (if \<exists>row \<in> set db. idMatches n row then Inr (map (setElo n x) db) else Inl PrismaClientError)"
  by (simp add: update_def)

lemma find_map_setElo:
  "find (idMatches n) (map (setElo m x) db) = map_option (setElo m x) (find (idMatches n) db)"
  by (induction db) simp_all

lemma findUnique_Some_D:
  "findUnique db n = Inr (Some row) \<Longrightarrow> isIntegerId n \<and> row \<in> set db \<and> idMatches n row"
  by (auto simp: findUnique_def find_Some_iff split: if_splits)

lemma tryBlock_ok:
  assumes "\<not> storeReadFails e" "\<not> storeWriteFails e"
    "findUnique db w = Inr (Some wi)" "findUnique db l = Inr (Some li)"
  shows "tryBlock e db w l =
     Inr (map (setElo l (snd (eloUpdate (elo wi) (elo li))))
           (map (setElo w (fst (eloUpdate (elo wi) (elo li)))) db))"
proof -
  from assms(3) have w: "wi \<in> set db" "idMatches w wi" by (auto dest: findUnique_Some_D)
  from assms(4) have l: "li \<in> set db" "idMatches l li" by (auto dest: findUnique_Some_D)
  have u1: "update db w x = Inr (map (setElo w x) db)" for x
    using w by (auto simp: update_eq)
  have "setElo w x li \<in> set (map (setElo w x) db)" for x using l(1) by simp
  then have u2: "update (map (setElo w x) db) l y = Inr (map (setElo l y) (map (setElo w x) db))" for x y
    using l(2) unfolding update_eq by (metis idMatches_setElo)
  show ?thesis
    using assms by (simp add: tryBlock_def transaction_def u1 u2 split: prod.split)
qed

lemma tryBlock_InrD:
  assumes "tryBlock e db w l = Inr db'"
  shows "\<exists>wi li. \<not> storeReadFails e \<and> \<not> storeWriteFails e \<and>
           findUnique db w = Inr (Some wi) \<and> findUnique db l = Inr (Some li)"
  using assms
  by (auto simp: tryBlock_def transaction_def split: if_splits sum.splits option.splits prod.splits)

lemma findUnique_after_vote:
  assumes "findUnique db n = Inr (Some row)"
  shows "findUnique (map (setElo l y) (map (setElo w x) db)) n = Inr (Some (setElo l y (setElo w x row)))"
  using assms by (auto simp: findUnique_def find_map_setElo simp del: map_map split: if_splits)

lemma images_recorded [simp]: "images (recorded cfg st req e) = images st"
  by (simp add: recorded_def)

lemma actionWith_cases [case_names invalid ipLimited sessionLimited failed voted]:
  obtains
    (invalid) "invalidIds req"
      "actionWith cfg st req e = (Inl (Error ''Invalid image IDs''), st)"
  | (ipLimited) "\<not> invalidIds req"
      "maxRequestsPerIP cfg \<le> length (ipRecent cfg st req e)"
      "actionWith cfg st req e =
         (Inl (Response ''Rate limit exceeded. Please slow down.'' 429),
          (afterCleanup e st)\<lparr>rateLimitMap :=
             ensureBucket (rateLimitMap (afterCleanup e st)) (clientIP req) (dateNow e)\<rparr>)"
  | (sessionLimited) "\<not> invalidIds req"
      "length (ipRecent cfg st req e) < maxRequestsPerIP cfg"
      "maxRequestsPerSession cfg \<le> length (sessionRecent cfg st req e)"
      "actionWith cfg st req e =
         (Inl (Response ''Rate limit exceeded for this session. Please slow down.'' 429),
          (afterCleanup e st)\<lparr>rateLimitMap :=
             ensureBucket (rateLimitMap (afterCleanup e st)) (clientIP req) (dateNow e),
            sessionRateLimitMap :=
             ensureBucket (sessionRateLimitMap (afterCleanup e st)) (sessionIdOf req e) (dateNow e)\<rparr>)"
  | (failed) err where "\<not> invalidIds req"
      "length (ipRecent cfg st req e) < maxRequestsPerIP cfg"
      "length (sessionRecent cfg st req e) < maxRequestsPerSession cfg"
      "tryBlock e (images st) (winnerIdField req) (loserIdField req) = Inl err"
      "actionWith cfg st req e =
         (Inl (Error ''Failed to update ratings. Please try again.''), recorded cfg st req e)"
  | (voted) wi li where "\<not> invalidIds req"
      "length (ipRecent cfg st req e) < maxRequestsPerIP cfg"
      "length (sessionRecent cfg st req e) < maxRequestsPerSession cfg"
      "\<not> storeReadFails e" "\<not> storeWriteFails e"
      "findUnique (images st) (winnerIdField req) = Inr (Some wi)"
      "findUnique (images st) (loserIdField req) = Inr (Some li)"
      "actionWith cfg st req e =
         (Inr (JsonSuccess (sessionIdOf req e)),
          (recorded cfg st req e)\<lparr>images :=
             map (setElo (loserIdField req) (snd (eloUpdate (elo wi) (elo li))))
               (map (setElo (winnerIdField req) (fst (eloUpdate (elo wi) (elo li)))) (images st))\<rparr>)"
proof (cases "invalidIds req")
  case True
  then show ?thesis using invalid actionWith_invalid by blast
next
  case valid: False
  show ?thesis
  proof (cases "maxRequestsPerIP cfg \<le> length (ipRecent cfg st req e)")
    case True
    then show ?thesis using ipLimited valid actionWith_ip_limited by blast
  next
    case ip: False
    show ?thesis
    proof (cases "maxRequestsPerSession cfg \<le> length (sessionRecent cfg st req e)")
      case True
      then show ?thesis using sessionLimited valid ip actionWith_session_limited
        by (meson not_le)
    next
      case sess: False
      have adm: "actionWith cfg st req e =
        (case tryBlock e (images st) (winnerIdField req) (loserIdField req) of
           Inl err \<Rightarrow> (Inl (Error ''Failed to update ratings. Please try again.''), recorded cfg st req e)
         | Inr db \<Rightarrow> (Inr (JsonSuccess (sessionIdOf req e)), (recorded cfg st req e)\<lparr>images := db\<rparr>))"
        using valid ip sess by (simp add: actionWith_admitted)
      show ?thesis
      proof (cases "tryBlock e (images st) (winnerIdField req) (loserIdField req)")
        case (Inl err)
        then show ?thesis using failed[of err] valid ip sess adm by simp
      next
        case (Inr db)
        then obtain wi li where f: "\<not> storeReadFails e" "\<not> storeWriteFails e"
          "findUnique (images st) (winnerIdField req) = Inr (Some wi)"
          "findUnique (images st) (loserIdField req) = Inr (Some li)"
          using tryBlock_InrD by blast
        from tryBlock_ok[OF f] Inr have "db =
          map (setElo (loserIdField req) (snd (eloUpdate (elo wi) (elo li))))
            (map (setElo (winnerIdField req) (fst (eloUpdate (elo wi) (elo li)))) (images st))"
          by simp
        then show ?thesis using voted[of wi li] valid ip sess adm f Inr by simp
      qed
    qed
  qed
qed

lemma distinct_ids:
  assumes "\<not> invalidIds req" "isIntegerId (winnerIdField req)" "isIntegerId (loserIdField req)"
  shows "winnerIdField req \<noteq> loserIdField req"
  using assms by (auto simp: invalidIds_def strictEq_def isIntegerId_def split: js_number.splits)

lemma setElo_other: "idMatches n row \<Longrightarrow> m \<noteq> n \<Longrightarrow> setElo m x row = row"
  by (auto simp: setElo_def idMatches_def)

lemma setElo_same: "idMatches n row \<Longrightarrow> setElo n x row = row\<lparr>elo := x\<rparr>"
  by (simp add: setElo_def)

lemma vote_lookup:
  assumes valid: "\<not> invalidIds req"
    and w: "findUnique db (winnerIdField req) = Inr (Some wi)"
    and l: "findUnique db (loserIdField req) = Inr (Some li)"
  shows "findUnique (map (setElo (loserIdField req) y) (map (setElo (winnerIdField req) x) db))
           (winnerIdField req) = Inr (Some (wi\<lparr>elo := x\<rparr>))"
    and "findUnique (map (setElo (loserIdField req) y) (map (setElo (winnerIdField req) x) db))
           (loserIdField req) = Inr (Some (li\<lparr>elo := y\<rparr>))"
proof -
  from w have wm: "isIntegerId (winnerIdField req)" "idMatches (winnerIdField req) wi"
    by (auto dest: findUnique_Some_D)
  from l have lm: "isIntegerId (loserIdField req)" "idMatches (loserIdField req) li"
    by (auto dest: findUnique_Some_D)
  have ne: "winnerIdField req \<noteq> loserIdField req" using distinct_ids valid wm(1) lm(1) by blast
  have "setElo (loserIdField req) y (setElo (winnerIdField req) x wi) = wi\<lparr>elo := x\<rparr>"
    using wm(2) ne by (simp add: setElo_same setElo_other)
  then show "findUnique (map (setElo (loserIdField req) y) (map (setElo (winnerIdField req) x) db))
           (winnerIdField req) = Inr (Some (wi\<lparr>elo := x\<rparr>))"
    using findUnique_after_vote[OF w] by simp
  have "setElo (loserIdField req) y (setElo (winnerIdField req) x li) = li\<lparr>elo := y\<rparr>"
    using lm(2) ne by (simp add: setElo_same setElo_other)
  then show "findUnique (map (setElo (loserIdField req) y) (map (setElo (winnerIdField req) x) db))
           (loserIdField req) = Inr (Some (li\<lparr>elo := y\<rparr>))"
    using findUnique_after_vote[OF l] by simp
qed

lemma actionWith_voted:
  assumes "\<not> invalidIds req"
    and "length (ipRecent cfg st req e) < maxRequestsPerIP cfg"
    and "length (sessionRecent cfg st req e) < maxRequestsPerSession cfg"
    and "\<not> storeReadFails e" and "\<not> storeWriteFails e"
    and "findUnique (images st) (winnerIdField req) = Inr (Some wi)"
    and "findUnique (images st) (loserIdField req) = Inr (Some li)"
  shows "actionWith cfg st req e =
         (Inr (JsonSuccess (sessionIdOf req e)),
          (recorded cfg st req e)\<lparr>images :=
             map (setElo (loserIdField req) (snd (eloUpdate (elo wi) (elo li))))
               (map (setElo (winnerIdField req) (fst (eloUpdate (elo wi) (elo li)))) (images st))\<rparr>)"
  using assms by (simp add: actionWith_admitted tryBlock_ok)


subsection \<open>Two votes in a row\<close>




subsection \<open>What a vote does to the table\<close>

lemma eloUpdate_nonneg: "0 \<le> fst (eloUpdate x y)" "0 \<le> snd (eloUpdate x y)"
  by (simp_all add: eloUpdate_fst eloUpdate_snd)

lemma setElo_nonneg: "0 \<le> x \<Longrightarrow> 0 \<le> elo row \<Longrightarrow> 0 \<le> elo (setElo n x row)"
  by (simp add: setElo_def)

lemma setElo_fields [simp]:
  "image_id (setElo n x row) = image_id row"
  "name (setElo n x row) = name row"
  "url (setElo n x row) = url row"
  by (simp_all add: setElo_def)

lemma setElo_unmatched: "\<not> idMatches n row \<Longrightarrow> setElo n x row = row"
  by (simp add: setElo_def)

lemma images_ensure_only [simp]:
  "images (st\<lparr>rateLimitMap := m\<rparr>) = images st"
  "images (st\<lparr>rateLimitMap := m, sessionRateLimitMap := s\<rparr>) = images st"
  by simp_all

lemma actionWith_images:
  "images (snd (actionWith cfg st req e)) = images st
   \<or> (\<exists>wi li. findUnique (images st) (winnerIdField req) = Inr (Some wi)
        \<and> findUnique (images st) (loserIdField req) = Inr (Some li)
        \<and> images (snd (actionWith cfg st req e)) =
            map (setElo (loserIdField req) (snd (eloUpdate (elo wi) (elo li))))
              (map (setElo (winnerIdField req) (fst (eloUpdate (elo wi) (elo li)))) (images st)))"
  by (rule actionWith_cases[where req=req and cfg=cfg and st=st and e=e]) auto

lemma actionWith_success:
  assumes "fst (actionWith cfg st req e) = Inr resp"
  obtains wi li where "\<not> invalidIds req"
      "findUnique (images st) (winnerIdField req) = Inr (Some wi)"
      "findUnique (images st) (loserIdField req) = Inr (Some li)"
      "images (snd (actionWith cfg st req e)) =
         map (setElo (loserIdField req) (snd (eloUpdate (elo wi) (elo li))))
           (map (setElo (winnerIdField req) (fst (eloUpdate (elo wi) (elo li)))) (images st))"
  using assms by (rule_tac actionWith_cases[where req=req and cfg=cfg and st=st and e=e]) auto


subsection \<open>The redraw loop and the sampler\<close>

lemma redraw_differs:
  "o2 \<noteq> o1 \<Longrightarrow> redraw rng n o1 o2 i = Some o2"
  by (subst redraw.simps) simp

lemma redraw_collides:
  "redraw rng n o1 o1 i = redraw rng n o1 (randomOffset (rng i) n) (Suc i)"
  by (subst redraw.simps) simp

lemma redraw_Some_D:
  assumes "redraw rng n o1 o2 i = Some r"
  shows "r \<noteq> o1 \<and> (r = o2 \<or> (\<exists>k \<ge> i. r = randomOffset (rng k) n))"
proof (rule redraw.raw_induct[where P = "\<lambda>rng n o1 o2 i r.
         r \<noteq> o1 \<and> (r = o2 \<or> (\<exists>k \<ge> i. r = randomOffset (rng k) n))", OF _ assms])
  fix f :: "(nat \<Rightarrow> real) \<Rightarrow> nat \<Rightarrow> nat \<Rightarrow> nat \<Rightarrow> nat \<Rightarrow> nat option"
  fix rng n o1 o2 i r
  assume IH: "\<And>rng n o1 o2 i r. f rng n o1 o2 i = Some r \<Longrightarrow>
      r \<noteq> o1 \<and> (r = o2 \<or> (\<exists>k \<ge> i. r = randomOffset (rng k) n))"
  assume step: "(if o2 = o1 then f rng n o1 (randomOffset (rng i) n) (Suc i) else Some o2) = Some r"
  show "r \<noteq> o1 \<and> (r = o2 \<or> (\<exists>k \<ge> i. r = randomOffset (rng k) n))"
  proof (cases "o2 = o1")
    case True
    with step have "f rng n o1 (randomOffset (rng i) n) (Suc i) = Some r"
      by (simp only: simp_thms if_True)
    from IH[OF this]
    have r: "r \<noteq> o1" and d: "r = randomOffset (rng i) n \<or> (\<exists>k\<ge>Suc i. r = randomOffset (rng k) n)"
      by blast+
    from d have "\<exists>k \<ge> i. r = randomOffset (rng k) n"
    proof
      assume "r = randomOffset (rng i) n"
      then show ?thesis by blast
    next
      assume "\<exists>k\<ge>Suc i. r = randomOffset (rng k) n"
      then obtain k where "Suc i \<le> k" "r = randomOffset (rng k) n" by blast
      then have "i \<le> k \<and> r = randomOffset (rng k) n" by simp
      then show ?thesis by blast
    qed
    with r show ?thesis by blast
  next
    case False
    with step have "Some o2 = Some r" by (simp only: simp_thms if_False)
    with False show ?thesis by simp
  qed
qed

lemma redraw_first_difference:
  assumes "i \<le> k" "\<forall>j. i \<le> j \<and> j < k \<longrightarrow> randomOffset (rng j) n = o1"
    "randomOffset (rng k) n \<noteq> o1"
  shows "redraw rng n o1 o1 i = Some (randomOffset (rng k) n)"
  using assms
proof (induction "k - i" arbitrary: i)
  case 0
  then have "i = k" by simp
  with "0.prems"(3) have "randomOffset (rng i) n \<noteq> o1" by simp
  then have "redraw rng n o1 (randomOffset (rng i) n) (Suc i) = Some (randomOffset (rng i) n)"
    by (rule redraw_differs)
  then show ?case unfolding redraw_collides[of rng n o1 i] using \<open>i = k\<close> by simp
next
  case (Suc d)
  then have lt: "i < k" by simp
  with Suc.prems(2) have c: "randomOffset (rng i) n = o1" by simp
  have d: "d = k - Suc i" using Suc.hyps(2) by simp
  have le: "Suc i \<le> k" using lt by simp
  have all: "\<forall>j. Suc i \<le> j \<and> j < k \<longrightarrow> randomOffset (rng j) n = o1"
    using Suc.prems(2) by auto
  have "redraw rng n o1 o1 (Suc i) = Some (randomOffset (rng k) n)"
    by (rule Suc.hyps(1)[OF d le all Suc.prems(3)])
  then show ?case unfolding redraw_collides[of rng n o1 i] c .
qed

lemma redraw_returns_iff:
  "(\<exists>r. redraw rng n o1 o2 i = Some r) \<longleftrightarrow> (o2 \<noteq> o1 \<or> (\<exists>k \<ge> i. randomOffset (rng k) n \<noteq> o1))"
proof
  assume "\<exists>r. redraw rng n o1 o2 i = Some r"
  then obtain r where "redraw rng n o1 o2 i = Some r" ..
  from redraw_Some_D[OF this] show "o2 \<noteq> o1 \<or> (\<exists>k \<ge> i. randomOffset (rng k) n \<noteq> o1)" by auto
next
  assume a: "o2 \<noteq> o1 \<or> (\<exists>k \<ge> i. randomOffset (rng k) n \<noteq> o1)"
  show "\<exists>r. redraw rng n o1 o2 i = Some r"
  proof (cases "o2 = o1")
    case False
    then show ?thesis by (simp add: redraw_differs)
  next
    case True
    with a obtain k where k: "i \<le> k" "randomOffset (rng k) n \<noteq> o1" by auto
    define m where "m = (LEAST k. i \<le> k \<and> randomOffset (rng k) n \<noteq> o1)"
    have m: "i \<le> m \<and> randomOffset (rng m) n \<noteq> o1"
      unfolding m_def by (rule LeastI[of "\<lambda>k. i \<le> k \<and> randomOffset (rng k) n \<noteq> o1" k]) (use k in simp)
    have "\<forall>j. i \<le> j \<and> j < m \<longrightarrow> randomOffset (rng j) n = o1"
      using not_less_Least[of _ "\<lambda>k. i \<le> k \<and> randomOffset (rng k) n \<noteq> o1"] unfolding m_def by blast
    with m have "redraw rng n o1 o1 i = Some (randomOffset (rng m) n)"
      by (intro redraw_first_difference) auto
    with True show ?thesis by simp
  qed
qed

lemma redraw_forever:
  assumes "\<forall>k \<ge> i. randomOffset (rng k) n = o1"
  shows "redraw rng n o1 o1 i = None"
proof (cases "redraw rng n o1 o1 i")
  case None
  then show ?thesis .
next
  case (Some r)
  from redraw_Some_D[OF this] assms show ?thesis by auto
qed

lemma randomOffset_range:
  assumes "0 \<le> r" "r < 1" "0 < n"
  shows "randomOffset r n < n"
proof -
  have "r * real n < real n" using assms by simp
  then have "\<lfloor>r * real n\<rfloor> < int n" by (simp add: floor_less_iff)
  moreover have "0 \<le> \<lfloor>r * real n\<rfloor>" using assms by simp
  ultimately show ?thesis by (simp add: randomOffset_def nat_less_iff)
qed


lemma findFirst_in_range: "k < length db \<Longrightarrow> findFirst db k = Some (db ! k)"
  by (simp add: findFirst_def)


lemma loader_enough:
  assumes "2 \<le> length db"
  shows "loader db rng =
     (case redraw rng (length db) (randomOffset (rng 0) (length db))
             (randomOffset (rng 1) (length db)) 2 of
        None \<Rightarrow> None
      | Some randomOffset2 \<Rightarrow>
          (case (findFirst db (randomOffset (rng 0) (length db)), findFirst db randomOffset2) of
             (Some x, Some y) \<Rightarrow> Some (Inr (x, y))
           | _ \<Rightarrow> Some (Inl (Error ''Failed to load images''))))"
  using assms by (simp add: loader_def Let_def)

lemma loader_returns_iff:
  assumes "2 \<le> length db"
  shows "(\<exists>r. loader db rng = Some r) \<longleftrightarrow>
     (\<exists>k. randomOffset (rng (Suc k)) (length db) \<noteq> randomOffset (rng 0) (length db))"
proof -
  let ?n = "length db" and ?o1 = "randomOffset (rng 0) (length db)"
  let ?o2 = "randomOffset (rng 1) (length db)"
  have "(\<exists>r. loader db rng = Some r) \<longleftrightarrow> (\<exists>r. redraw rng ?n ?o1 ?o2 2 = Some r)"
    unfolding loader_enough[OF assms]
    by (auto split: option.splits prod.splits)
  also have "\<dots> \<longleftrightarrow> (?o2 \<noteq> ?o1 \<or> (\<exists>k \<ge> 2. randomOffset (rng k) ?n \<noteq> ?o1))"
    by (rule redraw_returns_iff)
  also have "\<dots> \<longleftrightarrow> (\<exists>k. randomOffset (rng (Suc k)) ?n \<noteq> ?o1)"
  proof
    assume "?o2 \<noteq> ?o1 \<or> (\<exists>k \<ge> 2. randomOffset (rng k) ?n \<noteq> ?o1)"
    then show "\<exists>k. randomOffset (rng (Suc k)) ?n \<noteq> ?o1"
    proof
      assume "?o2 \<noteq> ?o1"
      then have "randomOffset (rng (Suc 0)) ?n \<noteq> ?o1" by simp
      then show ?thesis by blast
    next
      assume "\<exists>k \<ge> 2. randomOffset (rng k) ?n \<noteq> ?o1"
      then obtain k where k: "2 \<le> k" "randomOffset (rng k) ?n \<noteq> ?o1" by blast
      then have "k = Suc (k - 1)" by simp
      with k(2) show ?thesis by metis
    qed
  next
    assume "\<exists>k. randomOffset (rng (Suc k)) ?n \<noteq> ?o1"
    then obtain k where k: "randomOffset (rng (Suc k)) ?n \<noteq> ?o1" ..
    show "?o2 \<noteq> ?o1 \<or> (\<exists>k \<ge> 2. randomOffset (rng k) ?n \<noteq> ?o1)"
    proof (cases k)
      case 0
      with k show ?thesis by simp
    next
      case (Suc j)
      then have "2 \<le> Suc k" by simp
      with k show ?thesis by blast
    qed
  qed
  finally show ?thesis .
qed


lemma loader_succeeds:
  assumes n: "2 \<le> length db"
    and rng: "\<forall>i. 0 \<le> rng i \<and> rng i < 1"
    and k: "randomOffset (rng (Suc k)) (length db) \<noteq> randomOffset (rng 0) (length db)"
  shows "\<exists>o2. o2 < length db \<and> o2 \<noteq> randomOffset (rng 0) (length db)
     \<and> redraw rng (length db) (randomOffset (rng 0) (length db))
          (randomOffset (rng 1) (length db)) 2 = Some o2
     \<and> loader db rng = Some (Inr (db ! randomOffset (rng 0) (length db), db ! o2))"
proof -
  let ?n = "length db" and ?o1 = "randomOffset (rng 0) (length db)"
  have pos: "0 < ?n" using n by linarith
  have rg: "randomOffset (rng i) ?n < ?n" for i
    using rng pos by (simp add: randomOffset_range)
  from k have "\<exists>r. loader db rng = Some r"
    unfolding loader_returns_iff[OF n] by blast
  then obtain o2 where r: "redraw rng ?n ?o1 (randomOffset (rng 1) ?n) 2 = Some o2"
    unfolding loader_enough[OF n] by (auto split: option.splits)
  from redraw_Some_D[OF r] have ne: "o2 \<noteq> ?o1"
    and "o2 = randomOffset (rng 1) ?n \<or> (\<exists>k\<ge>2. o2 = randomOffset (rng k) ?n)" by blast+
  then have lt: "o2 < ?n" using rg by auto
  have "loader db rng = Some (Inr (db ! ?o1, db ! o2))"
    unfolding loader_enough[OF n] r using findFirst_in_range[OF rg[of 0]] findFirst_in_range[OF lt]
    by simp
  with lt ne r show ?thesis by blast
qed



lemma lateRng_range: "\<forall>i. 0 \<le> lateRng i \<and> lateRng i < 1"
  by (simp add: lateRng_def)

lemma lateRng_offsets:
  "randomOffset (lateRng 0) 2 = 0" "randomOffset (lateRng 6) 2 = 1"
  by (simp_all add: lateRng_def randomOffset_def)

subsection \<open>The rate limiter\<close>

lemma requests_getBucket [simp]: "requests (getBucket m k n) = timestamps m k"
  by (simp add: getBucket_def timestamps_def split: option.splits)

lemma timestamps_ensureBucket [simp]: "timestamps (ensureBucket m k n) k' = timestamps m k'"
  by (simp add: ensureBucket_def timestamps_def split: option.splits)

lemma timestamps_upd [simp]:
  "timestamps (m(k \<mapsto> d)) k' = (if k' = k then requests d else timestamps m k')"
  by (simp add: timestamps_def)

lemma timestamps_cleanupBuckets:
  "timestamps (cleanupBuckets c m) k =
     (case m k of
        None \<Rightarrow> []
        | Some d \<Rightarrow> if c - lastCleanup d > 5 * 60 * 1000
                   then filter (\<lambda>t. c - t < 60 * 1000) (requests d) else requests d)"
  by (simp add: cleanupBuckets_def timestamps_def Let_def split: option.splits)

lemma timestamps_cleanup_keeps:
  assumes "\<forall>t \<in> set (timestamps m k). c - t < 60 * 1000"
  shows "timestamps (cleanupBuckets c m) k = timestamps m k"
  using assms unfolding timestamps_cleanupBuckets
  by (auto simp: timestamps_def split: option.splits)

lemma timestamps_cleanup_subset:
  "set (timestamps (cleanupBuckets c m) k) \<subseteq> set (timestamps m k)"
  unfolding timestamps_cleanupBuckets
  by (auto simp: timestamps_def split: option.splits)

lemma ipRecent_eq:
  "ipRecent cfg st req e =
     filter (\<lambda>t. dateNow e - t < windowMs cfg)
       (timestamps (rateLimitMap (afterCleanup e st)) (clientIP req))"
  by (simp add: ipRecent_def recentRequests_def)

lemma sessionRecent_eq:
  "sessionRecent cfg st req e =
     filter (\<lambda>t. dateNow e - t < windowMs cfg)
       (timestamps (sessionRateLimitMap (afterCleanup e st)) (sessionIdOf req e))"
  by (simp add: sessionRecent_def recentRequests_def)

lemma afterCleanup_maps:
  "rateLimitMap (afterCleanup e st) =
     (if mathRandom e < 0.1 then cleanupBuckets (cleanupNow e) (rateLimitMap st) else rateLimitMap st)"
  "sessionRateLimitMap (afterCleanup e st) =
     (if mathRandom e < 0.1 then cleanupBuckets (cleanupNow e) (sessionRateLimitMap st)
      else sessionRateLimitMap st)"
  by (simp_all add: afterCleanup_def cleanupRateLimit_def)

lemma rateLimited_iff:
  assumes "\<not> invalidIds req"
  shows "rateLimited (fst (actionWith cfg st req e)) \<longleftrightarrow>
     maxRequestsPerIP cfg \<le> length (ipRecent cfg st req e)
     \<or> maxRequestsPerSession cfg \<le> length (sessionRecent cfg st req e)"
  using assms
  by (rule_tac actionWith_cases[where req=req and cfg=cfg and st=st and e=e]) auto

lemma invalid_not_rateLimited:
  "invalidIds req \<Longrightarrow> \<not> rateLimited (fst (actionWith cfg st req e))"
  by (simp add: actionWith_invalid)

lemma admitted_timestamps:
  assumes "\<not> invalidIds req" "\<not> rateLimited (fst (actionWith cfg st req e))"
  shows "timestamps (rateLimitMap (snd (actionWith cfg st req e))) (clientIP req) =
           ipRecent cfg st req e @ [dateNow e]"
    and "timestamps (sessionRateLimitMap (snd (actionWith cfg st req e))) (sessionIdOf req e) =
           sessionRecent cfg st req e @ [dateNow e]"
    and "k \<noteq> clientIP req \<Longrightarrow>
         timestamps (rateLimitMap (snd (actionWith cfg st req e))) k =
           timestamps (rateLimitMap (afterCleanup e st)) k"
    and "k \<noteq> sessionIdOf req e \<Longrightarrow>
         timestamps (sessionRateLimitMap (snd (actionWith cfg st req e))) k =
           timestamps (sessionRateLimitMap (afterCleanup e st)) k"
  using assms
  by (rule_tac [!] actionWith_cases[where req=req and cfg=cfg and st=st and e=e])
     (auto simp: recorded_def)

lemma rejected_timestamps:
  assumes "rateLimited (fst (actionWith cfg st req e))"
  shows "timestamps (rateLimitMap (snd (actionWith cfg st req e))) k =
           timestamps (rateLimitMap (afterCleanup e st)) k"
    and "timestamps (sessionRateLimitMap (snd (actionWith cfg st req e))) k =
           timestamps (sessionRateLimitMap (afterCleanup e st)) k"
  using assms
  by (rule_tac [!] actionWith_cases[where req=req and cfg=cfg and st=st and e=e])
     (auto simp: recorded_def)

lemma same_client_step:
  assumes W: "windowMs cfg = 60 * 1000"
    and ip: "timestamps (rateLimitMap st) (clientIP req) = ts"
    and sess: "timestamps (sessionRateLimitMap st) (sessionIdOf req e) = ts"
    and ts: "\<forall>t \<in> set ts. T \<le> t"
    and valid: "\<not> invalidIds req"
    and now: "dateNow e < T + 60 * 1000"
    and clean: "mathRandom e < 0.1 \<longrightarrow> cleanupNow e < T + 60 * 1000"
  shows "rateLimited (fst (actionWith cfg st req e)) \<longleftrightarrow>
           min (maxRequestsPerIP cfg) (maxRequestsPerSession cfg) \<le> length ts"
    and "timestamps (rateLimitMap (snd (actionWith cfg st req e))) (clientIP req) =
           (if rateLimited (fst (actionWith cfg st req e)) then ts else ts @ [dateNow e])"
    and "timestamps (sessionRateLimitMap (snd (actionWith cfg st req e))) (sessionIdOf req e) =
           (if rateLimited (fst (actionWith cfg st req e)) then ts else ts @ [dateNow e])"
proof -
  have c1: "timestamps (rateLimitMap (afterCleanup e st)) (clientIP req) = ts"
  proof (cases "mathRandom e < 0.1")
    case True
    with clean have "\<forall>t \<in> set (timestamps (rateLimitMap st) (clientIP req)). cleanupNow e - t < 60 * 1000"
      using ts ip by auto
    from timestamps_cleanup_keeps[OF this] True ip show ?thesis by (simp add: afterCleanup_maps)
  next
    case False
    then show ?thesis using ip by (simp add: afterCleanup_maps)
  qed
  have c2: "timestamps (sessionRateLimitMap (afterCleanup e st)) (sessionIdOf req e) = ts"
  proof (cases "mathRandom e < 0.1")
    case True
    with clean have "\<forall>t \<in> set (timestamps (sessionRateLimitMap st) (sessionIdOf req e)).
        cleanupNow e - t < 60 * 1000"
      using ts sess by auto
    from timestamps_cleanup_keeps[OF this] True sess show ?thesis by (simp add: afterCleanup_maps)
  next
    case False
    then show ?thesis using sess by (simp add: afterCleanup_maps)
  qed
  have keep: "filter (\<lambda>t. dateNow e - t < windowMs cfg) ts = ts"
    using ts now W by (auto simp: filter_id_conv)
  have r1: "ipRecent cfg st req e = ts" unfolding ipRecent_eq c1 by (rule keep)
  have r2: "sessionRecent cfg st req e = ts" unfolding sessionRecent_eq c2 by (rule keep)
  show lim: "rateLimited (fst (actionWith cfg st req e)) \<longleftrightarrow>
           min (maxRequestsPerIP cfg) (maxRequestsPerSession cfg) \<le> length ts"
    unfolding rateLimited_iff[OF valid] r1 r2 by auto
  show "timestamps (rateLimitMap (snd (actionWith cfg st req e))) (clientIP req) =
           (if rateLimited (fst (actionWith cfg st req e)) then ts else ts @ [dateNow e])"
    using admitted_timestamps(1)[OF valid, of cfg st e] rejected_timestamps(1)[of cfg st req e]
    by (simp add: r1 c1)
  show "timestamps (sessionRateLimitMap (snd (actionWith cfg st req e))) (sessionIdOf req e) =
           (if rateLimited (fst (actionWith cfg st req e)) then ts else ts @ [dateNow e])"
    using admitted_timestamps(2)[OF valid, of cfg st e] rejected_timestamps(2)[of cfg st req e]
    by (simp add: r2 c2)
qed

lemma votes_Cons:
  "votes cfg st ((req, e) # rest) =
     (fst (actionWith cfg st req e) # fst (votes cfg (snd (actionWith cfg st req e)) rest),
      snd (votes cfg (snd (actionWith cfg st req e)) rest))"
  by (simp add: split_beta)

lemma length_votes [simp]: "length (fst (votes cfg st rs)) = length rs"
  by (induction rs arbitrary: st) (auto simp: split_beta)

lemma votes_same_client:
  assumes W: "windowMs cfg = 60 * 1000"
    and ip: "timestamps (rateLimitMap st) ip = ts"
    and sess: "timestamps (sessionRateLimitMap st) sid = ts"
    and ts: "\<forall>t \<in> set ts. T \<le> t \<and> Q t"
    and rs: "\<forall>(req, e) \<in> set rs. \<not> invalidIds req \<and> clientIP req = ip \<and> sessionIdOf req e = sid
               \<and> T \<le> dateNow e \<and> dateNow e < T + 60 * 1000
               \<and> (mathRandom e < 0.1 \<longrightarrow> cleanupNow e < T + 60 * 1000) \<and> Q (dateNow e)"
  shows "(\<forall>i < length rs. rateLimited (fst (votes cfg st rs) ! i) \<longleftrightarrow>
            min (maxRequestsPerIP cfg) (maxRequestsPerSession cfg) \<le> length ts + i)
    \<and> (\<forall>t \<in> set (timestamps (rateLimitMap (snd (votes cfg st rs))) ip). Q t)
    \<and> (\<forall>t \<in> set (timestamps (sessionRateLimitMap (snd (votes cfg st rs))) sid). Q t)"
  using ip sess ts rs
proof (induction rs arbitrary: st ts)
  case Nil
  then show ?case by simp
next
  case (Cons r rest)
  obtain req e where r: "r = (req, e)" by (cases r)
  let ?M = "min (maxRequestsPerIP cfg) (maxRequestsPerSession cfg)"
  let ?st = "snd (actionWith cfg st req e)"
  let ?lim = "rateLimited (fst (actionWith cfg st req e))"
  let ?ts = "if ?lim then ts else ts @ [dateNow e]"
  from Cons.prems(4) r have h: "\<not> invalidIds req" "clientIP req = ip" "sessionIdOf req e = sid"
    "T \<le> dateNow e" "dateNow e < T + 60 * 1000"
    "mathRandom e < 0.1 \<longrightarrow> cleanupNow e < T + 60 * 1000" "Q (dateNow e)"
    by auto
  have ge: "\<forall>t \<in> set ts. T \<le> t" using Cons.prems(3) by blast
  note step = same_client_step[OF W _ _ ge h(1) h(5) h(6), unfolded h(2) h(3), OF Cons.prems(1) Cons.prems(2)]
  have ts': "\<forall>t \<in> set ?ts. T \<le> t \<and> Q t" using Cons.prems(3) h(4) h(7) by auto
  have rest: "\<forall>(req, e) \<in> set rest. \<not> invalidIds req \<and> clientIP req = ip \<and> sessionIdOf req e = sid
               \<and> T \<le> dateNow e \<and> dateNow e < T + 60 * 1000
               \<and> (mathRandom e < 0.1 \<longrightarrow> cleanupNow e < T + 60 * 1000) \<and> Q (dateNow e)"
    using Cons.prems(4) by simp
  note IH = Cons.IH[OF step(2) step(3) ts' rest]
  have len: "?M \<le> length ?ts + i \<longleftrightarrow> ?M \<le> length ts + Suc i" for i
    using step(1) by auto
  have res: "rateLimited (fst (votes cfg st (r # rest)) ! i) \<longleftrightarrow> ?M \<le> length ts + i"
    if "i < length (r # rest)" for i
  proof (cases i)
    case 0
    then show ?thesis using step(1) by (simp add: r votes_Cons del: votes.simps)
  next
    case (Suc j)
    with that have "j < length rest" by simp
    with IH have "rateLimited (fst (votes cfg ?st rest) ! j) \<longleftrightarrow> ?M \<le> length ?ts + j" by blast
    then show ?thesis unfolding len using Suc by (simp add: r votes_Cons del: votes.simps)
  qed
  show ?case using res IH by (simp add: r votes_Cons del: votes.simps)
qed

lemma after_window_admitted:
  assumes valid: "\<not> invalidIds req"
    and pos: "0 < maxRequestsPerIP cfg" "0 < maxRequestsPerSession cfg"
    and ip: "\<forall>t \<in> set (timestamps (rateLimitMap st) (clientIP req)). windowMs cfg \<le> dateNow e - t"
    and sess: "\<forall>t \<in> set (timestamps (sessionRateLimitMap st) (sessionIdOf req e)).
                 windowMs cfg \<le> dateNow e - t"
  shows "\<not> rateLimited (fst (actionWith cfg st req e))"
proof -
  have s1: "set (timestamps (rateLimitMap (afterCleanup e st)) k) \<subseteq> set (timestamps (rateLimitMap st) k)" for k
    using timestamps_cleanup_subset by (simp add: afterCleanup_maps)
  have s2: "set (timestamps (sessionRateLimitMap (afterCleanup e st)) k)
      \<subseteq> set (timestamps (sessionRateLimitMap st) k)" for k
    using timestamps_cleanup_subset by (simp add: afterCleanup_maps)
  have "ipRecent cfg st req e = []"
    unfolding ipRecent_eq filter_empty_conv using ip s1 by fastforce
  moreover have "sessionRecent cfg st req e = []"
    unfolding sessionRecent_eq filter_empty_conv using sess s2 by fastforce
  ultimately show ?thesis
    unfolding rateLimited_iff[OF valid] using pos by simp
qed

lemma recent_without_cleanup:
  assumes "\<not> mathRandom e < 0.1"
  shows "ipRecent cfg st req e =
           filter (\<lambda>t. dateNow e - t < windowMs cfg) (timestamps (rateLimitMap st) (clientIP req))"
    and "sessionRecent cfg st req e =
           filter (\<lambda>t. dateNow e - t < windowMs cfg)
             (timestamps (sessionRateLimitMap st) (sessionIdOf req e))"
  using assms by (simp_all add: ipRecent_eq sessionRecent_eq afterCleanup_maps)


subsection \<open>The example states\<close>

lemma voteAB_valid: "\<not> invalidIds voteAB"
  by (simp add: invalidIds_def voteAB_def strictEq_def)

lemma server0_ipRecent: "ipRecent cfg server0 voteAB env0 = []"
  by (simp add: ipRecent_def afterCleanup_def env0_def server0_def getBucket_def recentRequests_def)

lemma server0_sessionRecent: "sessionRecent cfg server0 voteAB env0 = []"
  by (simp add: sessionRecent_def afterCleanup_def env0_def server0_def getBucket_def recentRequests_def)

lemma server0_findA: "findUnique (images server0) (winnerIdField voteAB) = Inr (Some img1)"
  by (simp add: findUnique_def server0_def voteAB_def isIntegerId_def idMatches_def img1_def)

lemma server0_findB: "findUnique (images server0) (loserIdField voteAB) = Inr (Some img2)"
  by (simp add: findUnique_def server0_def voteAB_def isIntegerId_def idMatches_def img1_def img2_def)


lemma sourceLimits_simps:
  "windowMs sourceLimits = 60000" "maxRequestsPerIP sourceLimits = 30"
  "maxRequestsPerSession sourceLimits = 20"
  by (simp_all add: sourceLimits_def)

lemma server0_vote:
  "action server0 voteAB env0 =
     (Inr (JsonSuccess ''u-1''),
      (recorded sourceLimits server0 voteAB env0)
        \<lparr>images := [img1\<lparr>elo := 1216\<rparr>, img2\<lparr>elo := 1184\<rparr>, img3]\<rparr>)"
proof -
  have e: "\<not> storeReadFails env0" "\<not> storeWriteFails env0" by (simp_all add: env0_def)
  have i: "length (ipRecent sourceLimits server0 voteAB env0) < maxRequestsPerIP sourceLimits"
    by (simp add: server0_ipRecent sourceLimits_simps)
  have s: "length (sessionRecent sourceLimits server0 voteAB env0) < maxRequestsPerSession sourceLimits"
    by (simp add: server0_sessionRecent sourceLimits_simps)
  have sid: "sessionIdOf voteAB env0 = ''u-1''" by (simp add: sessionIdOf_def voteAB_def env0_def)
  have db: "map (setElo (loserIdField voteAB) 1184) (map (setElo (winnerIdField voteAB) 1216) (images server0))
      = [img1\<lparr>elo := 1216\<rparr>, img2\<lparr>elo := 1184\<rparr>, img3]"
    by (simp add: server0_def voteAB_def setElo_def idMatches_def img1_def img2_def img3_def)
  have ab: "eloUpdate (elo img1) (elo img2) = (1216, 1184)"
    by (simp add: img1_def img2_def eloUpdate_1200)
  show ?thesis
    unfolding action_def actionWith_voted[OF voteAB_valid i s e server0_findA server0_findB]
    by (simp add: sid ab db del: map_map)
qed


lemma voteAB'_valid: "\<not> invalidIds voteAB'"
  by (simp add: invalidIds_def voteAB'_def voteAB_def strictEq_def)

lemma clientIP_voteAB [simp]: "clientIP voteAB = ''203.0.113.7''" "clientIP voteAB' = ''203.0.113.7''"
  by (simp_all add: clientIP_def voteAB_def voteAB'_def)







subsection \<open>Rejected and failing votes\<close>

lemma invalidIds_iff:
  "invalidIds req \<longleftrightarrow>
     isNaN (winnerIdField req) \<or> isNaN (loserIdField req) \<or> winnerIdField req = loserIdField req"
  by (auto simp: invalidIds_def strictEq_def)

lemma actionWith_invalid_iff:
  "fst (actionWith cfg st req e) = Inl (Error ''Invalid image IDs'') \<longleftrightarrow> invalidIds req"
  by (rule actionWith_cases[where req=req and cfg=cfg and st=st and e=e]) auto


lemma voteFraction_valid: "\<not> invalidIds voteFraction"
  by (simp add: invalidIds_def voteFraction_def voteAB_def strictEq_def)

lemma clientIP_more [simp]:
  "clientIP voteFraction = ''203.0.113.7''" "clientIP voteGone = ''203.0.113.7''"
  by (simp_all add: clientIP_def voteAB_def voteFraction_def voteGone_def)

lemma sessionIdOf_more [simp]:
  "sessionIdOf voteFraction env0 = ''u-1''" "sessionIdOf voteGone env0 = ''u-1''"
  "sessionIdOf voteAB envWriteFails = ''u-1''"
  by (simp_all add: sessionIdOf_def voteAB_def voteFraction_def voteGone_def env0_def envWriteFails_def)

lemma server0_fresh:
  "ipRecent cfg server0 req env0 = []" "sessionRecent cfg server0 req env0 = []"
  "ipRecent cfg server0 req envWriteFails = []" "sessionRecent cfg server0 req envWriteFails = []"
  by (simp_all add: ipRecent_def sessionRecent_def afterCleanup_def env0_def envWriteFails_def
      server0_def getBucket_def recentRequests_def)

lemma server0_admits:
  assumes "\<not> invalidIds req" "e = env0 \<or> e = envWriteFails"
  shows "action server0 req e =
     (case tryBlock e (images server0) (winnerIdField req) (loserIdField req) of
        Inl err \<Rightarrow> (Inl (Error ''Failed to update ratings. Please try again.''),
                    recorded sourceLimits server0 req e)
      | Inr db \<Rightarrow> (Inr (JsonSuccess (sessionIdOf req e)),
                   (recorded sourceLimits server0 req e)\<lparr>images := db\<rparr>))"
  unfolding action_def using assms
  by (intro actionWith_admitted) (auto simp: server0_fresh sourceLimits_simps)

lemma server0_recorded_ip:
  "rateLimitMap (recorded sourceLimits server0 req env0) (clientIP req) =
     Some \<lparr>requests = [1000], lastCleanup = 1000\<rparr>"
  by (simp add: recorded_def server0_fresh)
     (simp add: afterCleanup_def env0_def server0_def getBucket_def)

lemma voteGone_valid: "\<not> invalidIds voteGone"
  by (simp add: invalidIds_def voteGone_def voteAB_def strictEq_def)

lemma envAt_simps [simp]:
  "dateNow (envAt t) = t" "cleanupNow (envAt t) = t + 1" "mathRandom (envAt t) = 0.05"
  by (simp_all add: envAt_def)

lemma sessionIdOf_voteAB' [simp]: "sessionIdOf voteAB' en = ''u-1''"
  by (simp add: sessionIdOf_def voteAB'_def)

lemma limits3_simps [simp]:
  "windowMs limits3 = 60 * 1000" "maxRequestsPerIP limits3 = 3" "maxRequestsPerSession limits3 = 3"
  by (simp_all add: limits3_def)


section \<open>The claims\<close>

text \<open>
  C1. A vote that passes validation and both rate limits, on a store that answers, for two
  ids that resolve to rows, succeeds and leaves the winner and the loser with the ratings
  of the Elo formula with \<open>K = 32\<close>:
  \<open>expectedWinner = 1 / (1 + 10 powr ((loser - winner) / 400))\<close>,
  \<open>newWinner = max 0 (winner + K * (1 - expectedWinner))\<close>,
  \<open>newLoser = max 0 (loser + K * (0 - (1 - expectedWinner)))\<close>.
  Two images rated 1200 end at 1216 and 1184.
\<close>

theorem vote_applies_elo_formula:
  assumes "\<not> invalidIds req"
    and "length (ipRecent sourceLimits st req e) < 30"
    and "length (sessionRecent sourceLimits st req e) < 20"
    and "\<not> storeReadFails e" and "\<not> storeWriteFails e"
    and "findUnique (images st) (winnerIdField req) = Inr (Some winner)"
    and "findUnique (images st) (loserIdField req) = Inr (Some loser)"
  shows "fst (action st req e) = Inr (JsonSuccess (sessionIdOf req e))
    \<and> findUnique (images (snd (action st req e))) (winnerIdField req) =
        Inr (Some (winner\<lparr>elo :=
          max 0 (elo winner + 32 * (1 - 1 / (1 + 10 powr ((elo loser - elo winner) / 400))))\<rparr>))
    \<and> findUnique (images (snd (action st req e))) (loserIdField req) =
        Inr (Some (loser\<lparr>elo :=
          max 0 (elo loser + 32 * (0 - (1 - 1 / (1 + 10 powr ((elo loser - elo winner) / 400)))))\<rparr>))
    \<and> (elo winner = 1200 \<and> elo loser = 1200 \<longrightarrow>
          findUnique (images (snd (action st req e))) (winnerIdField req) =
            Inr (Some (winner\<lparr>elo := 1216\<rparr>))
        \<and> findUnique (images (snd (action st req e))) (loserIdField req) =
            Inr (Some (loser\<lparr>elo := 1184\<rparr>)))"
proof -
  have lim: "length (ipRecent sourceLimits st req e) < maxRequestsPerIP sourceLimits"
    "length (sessionRecent sourceLimits st req e) < maxRequestsPerSession sourceLimits"
    using assms(2,3) by (simp_all add: sourceLimits_def)
  note a = actionWith_voted[OF assms(1) lim assms(4-7)]
  have r: "fst (action st req e) = Inr (JsonSuccess (sessionIdOf req e))"
    by (simp add: action_def a)
  have db: "images (snd (action st req e)) =
      map (setElo (loserIdField req) (snd (eloUpdate (elo winner) (elo loser))))
        (map (setElo (winnerIdField req) (fst (eloUpdate (elo winner) (elo loser)))) (images st))"
    by (simp add: action_def a)
  have w: "findUnique (images (snd (action st req e))) (winnerIdField req) =
      Inr (Some (winner\<lparr>elo := fst (eloUpdate (elo winner) (elo loser))\<rparr>))"
    unfolding db by (rule vote_lookup(1)[OF assms(1,6,7)])
  have l: "findUnique (images (snd (action st req e))) (loserIdField req) =
      Inr (Some (loser\<lparr>elo := snd (eloUpdate (elo winner) (elo loser))\<rparr>))"
    unfolding db by (rule vote_lookup(2)[OF assms(1,6,7)])
  have eq: "elo winner = 1200 \<and> elo loser = 1200 \<longrightarrow>
      fst (eloUpdate (elo winner) (elo loser)) = 1216 \<and> snd (eloUpdate (elo winner) (elo loser)) = 1184"
    by (simp add: eloUpdate_1200)
  show ?thesis
    using r w l eq unfolding eloUpdate_fst eloUpdate_snd by simp
qed


text \<open>The theorem at the example state: image 1 beats image 2, both at 1200.\<close>

theorem vote_applies_elo_formula_witness:
  "fst (action server0 voteAB env0) = Inr (JsonSuccess ''u-1'')
   \<and> findUnique (images (snd (action server0 voteAB env0))) (Fin 1) = Inr (Some (img1\<lparr>elo := 1216\<rparr>))
   \<and> findUnique (images (snd (action server0 voteAB env0))) (Fin 2) = Inr (Some (img2\<lparr>elo := 1184\<rparr>))"
proof -
  have e: "\<not> storeReadFails env0" "\<not> storeWriteFails env0" by (simp_all add: env0_def)
  have i: "length (ipRecent sourceLimits server0 voteAB env0) < 30" by (simp add: server0_ipRecent)
  have s: "length (sessionRecent sourceLimits server0 voteAB env0) < 20" by (simp add: server0_sessionRecent)
  have ab: "elo img1 = 1200 \<and> elo img2 = 1200" by (simp add: img1_def img2_def)
  have sid: "sessionIdOf voteAB env0 = ''u-1''" by (simp add: sessionIdOf_def voteAB_def env0_def)
  have f: "winnerIdField voteAB = Fin 1" "loserIdField voteAB = Fin 2" by (simp_all add: voteAB_def)
  show ?thesis
    using vote_applies_elo_formula[OF voteAB_valid i s e server0_findA server0_findB] ab sid f
    by simp
qed

text \<open>
  C2. Both results of the Elo calculation are at least 0, whatever the two ratings are, and
  a vote (whatever its outcome) on a table whose ratings are all at least 0 leaves a table
  whose ratings are all at least 0.
\<close>

theorem ratings_never_negative:
  "0 \<le> fst (eloUpdate x y) \<and> 0 \<le> snd (eloUpdate x y)
   \<and> ((\<forall>row \<in> set (images st). 0 \<le> elo row)
        \<longrightarrow> (\<forall>row \<in> set (images (snd (action st req e))). 0 \<le> elo row))"
proof -
  have "\<forall>row \<in> set (images (snd (action st req e))). 0 \<le> elo row"
    if inv: "\<forall>row \<in> set (images st). 0 \<le> elo row"
    using actionWith_images[of sourceLimits st req e] inv
    by (auto simp: action_def intro!: setElo_nonneg eloUpdate_nonneg)
  then show ?thesis by (simp add: eloUpdate_nonneg)
qed

text \<open>
  The theorem at two ratings of 0, where the loser is held at 0, and at the example vote.
\<close>

theorem ratings_never_negative_witness:
  "0 \<le> fst (eloUpdate 0 0) \<and> 0 \<le> snd (eloUpdate 0 0) \<and> snd (eloUpdate 0 0) = 0
   \<and> 0 \<le> elo img1 \<and> 0 \<le> elo img2
   \<and> list_all (\<lambda>row. 0 \<le> elo row) (images (snd (action server0 voteAB env0)))"
proof -
  have pre: "\<forall>row \<in> set (images server0). 0 \<le> elo row"
    by (simp add: server0_def img1_def img2_def img3_def)
  have z: "snd (eloUpdate 0 0) = 0" by (simp add: eloUpdate_def Let_def)
  show ?thesis
    using ratings_never_negative[of 0 0 server0 voteAB env0] pre z
    by (simp add: list_all_iff img1_def img2_def)
qed











text \<open>
  C6, as the code has it. The loop redraws the second offset until it differs from the
  first; there is no bound on the number of draws and no fallback scan. With at least two
  images the sampler returns exactly when some draw after the first gives an offset other
  than the first; it does not return when every draw gives the same offset; and after any
  number \<open>m\<close> of colliding draws it still takes the offset of the next draw.
\<close>

theorem sampler_redraws_without_bound:
  assumes "2 \<le> length db"
  shows "((\<exists>r. loader db rng = Some r) \<longleftrightarrow>
           (\<exists>k. randomOffset (rng (Suc k)) (length db) \<noteq> randomOffset (rng 0) (length db)))
    \<and> ((\<forall>k. randomOffset (rng (Suc k)) (length db) = randomOffset (rng 0) (length db))
          \<longrightarrow> loader db rng = None)
    \<and> ((\<forall>i. 0 \<le> rng i \<and> rng i < 1)
        \<and> (\<forall>j < m. randomOffset (rng (Suc j)) (length db) = randomOffset (rng 0) (length db))
        \<and> randomOffset (rng (Suc m)) (length db) \<noteq> randomOffset (rng 0) (length db)
          \<longrightarrow> loader db rng =
                Some (Inr (db ! randomOffset (rng 0) (length db),
                           db ! randomOffset (rng (Suc m)) (length db))))"
proof (intro conjI impI)
  show iff: "(\<exists>r. loader db rng = Some r) \<longleftrightarrow>
           (\<exists>k. randomOffset (rng (Suc k)) (length db) \<noteq> randomOffset (rng 0) (length db))"
    by (rule loader_returns_iff[OF assms])
  assume "\<forall>k. randomOffset (rng (Suc k)) (length db) = randomOffset (rng 0) (length db)"
  with iff have "\<not> (\<exists>r. loader db rng = Some r)" by simp
  then show "loader db rng = None" by simp
next
  let ?n = "length db" and ?o1 = "randomOffset (rng 0) (length db)"
  assume a: "(\<forall>i. 0 \<le> rng i \<and> rng i < 1)
        \<and> (\<forall>j < m. randomOffset (rng (Suc j)) ?n = ?o1)
        \<and> randomOffset (rng (Suc m)) ?n \<noteq> ?o1"
  then have rng: "\<forall>i. 0 \<le> rng i \<and> rng i < 1"
    and c: "\<forall>j < m. randomOffset (rng (Suc j)) ?n = ?o1"
    and d: "randomOffset (rng (Suc m)) ?n \<noteq> ?o1" by blast+
  from loader_succeeds[OF assms rng d] obtain o2 where
    r: "redraw rng ?n ?o1 (randomOffset (rng 1) ?n) 2 = Some o2"
    and l: "loader db rng = Some (Inr (db ! ?o1, db ! o2))" by blast
  have "redraw rng ?n ?o1 (randomOffset (rng 1) ?n) 2 = Some (randomOffset (rng (Suc m)) ?n)"
  proof (cases m)
    case 0
    with d show ?thesis by (simp add: redraw_differs)
  next
    case (Suc m')
    with c have first: "randomOffset (rng 1) ?n = ?o1" by simp
    have le: "2 \<le> Suc m" using Suc by simp
    have "\<forall>j. 2 \<le> j \<and> j < Suc m \<longrightarrow> randomOffset (rng j) ?n = ?o1"
    proof (intro allI impI)
      fix j assume "2 \<le> j \<and> j < Suc m"
      then have "2 \<le> j" "j < Suc m" by blast+
      then have "j - 1 < m" "j = Suc (j - 1)" by linarith+
      with c show "randomOffset (rng j) ?n = ?o1" by metis
    qed
    from redraw_first_difference[OF le this d] show ?thesis unfolding first .
  qed
  with r have "o2 = randomOffset (rng (Suc m)) ?n" by simp
  with l show "loader db rng = Some (Inr (db ! ?o1, db ! randomOffset (rng (Suc m)) ?n))" by simp
qed

text \<open>
  The theorem at two images: five colliding redraws and then another offset, and a
  generator that is stuck at 0.
\<close>

theorem sampler_redraws_without_bound_witness:
  "2 \<le> length twoImages
   \<and> randomOffset (lateRng 1) 2 = randomOffset (lateRng 0) 2
   \<and> randomOffset (lateRng 5) 2 = randomOffset (lateRng 0) 2
   \<and> randomOffset (lateRng 6) 2 \<noteq> randomOffset (lateRng 0) 2
   \<and> loader twoImages lateRng = Some (Inr (img1, img2))
   \<and> loader twoImages stuckRng = None"
proof -
  have n: "2 \<le> length twoImages" by (simp add: twoImages_def)
  have len: "length twoImages = 2" by (simp add: twoImages_def)
  have c: "\<forall>j < 5. randomOffset (lateRng (Suc j)) 2 = randomOffset (lateRng 0) 2"
    by (simp add: lateRng_def randomOffset_def)
  have d: "randomOffset (lateRng (Suc 5)) 2 \<noteq> randomOffset (lateRng 0) 2"
    by (simp add: lateRng_offsets)
  have s: "\<forall>k. randomOffset (stuckRng (Suc k)) 2 = randomOffset (stuckRng 0) 2"
    by (simp add: stuckRng_def)
  have rows: "twoImages ! 0 = img1" "twoImages ! Suc 0 = img2" by (simp_all add: twoImages_def)
  from sampler_redraws_without_bound[OF n, of stuckRng] s
  have a: "loader twoImages stuckRng = None" unfolding len by blast
  from sampler_redraws_without_bound[OF n, of lateRng 5] lateRng_range c d
  have b: "loader twoImages lateRng = Some (Inr (twoImages ! randomOffset (lateRng 0) 2,
                           twoImages ! randomOffset (lateRng (Suc 5)) 2))"
    unfolding len by blast
  have e: "randomOffset (lateRng (Suc 0)) 2 = 0" "randomOffset (lateRng 5) 2 = 0"
    by (simp_all add: lateRng_def randomOffset_def)
  show ?thesis using n a b unfolding len by (simp add: lateRng_offsets rows e)
qed

text \<open>
  C6 as it is stated fails for a generator that always returns 0: on a table of two images
  the sampler never returns.
\<close>

theorem sampler_stuck_counterexample:
  "length twoImages = 2 \<and> stuckRng 0 = 0 \<and> stuckRng 1 = 0
   \<and> loader twoImages stuckRng = None"
proof -
  have n: "2 \<le> length twoImages" by (simp add: twoImages_def)
  have z: "randomOffset (stuckRng i) k = 0" for i k
    by (simp add: stuckRng_def randomOffset_def)
  have "redraw stuckRng (length twoImages) 0 0 2 = None"
    by (rule redraw_forever) (simp add: z)
  then have "loader twoImages stuckRng = None"
    unfolding loader_enough[OF n] z by simp
  then show ?thesis by (simp add: twoImages_def stuckRng_def)
qed

text \<open>
  C7. For a request with valid ids and any limits:
  \<^item> it is rejected with status 429 exactly when the number of timestamps of its address
    inside the window has reached the maximum per address, or that of its session has
    reached the maximum per session; so it is admitted only if it passes both limits (30
    and 20 in \<open>action\<close>);
  \<^item> when it is admitted, the current time is appended to the timestamps inside the window,
    for both keys; when it is rejected, no timestamp is added;
  \<^item> when the cleanup does not run, the timestamps inside the window are those stored for
    the key that are less than the window old.
  For a sequence of requests of one client whose address and session have no bucket yet,
  all inside one window of 60 s: the request with index \<open>i\<close> (from 0) is rejected exactly
  when \<open>i\<close> has reached the smaller of the two maxima, so with a maximum of 3 the first
  three are admitted and the fourth is rejected; and a request of this client that comes
  when each of them is at least a window old is admitted.
\<close>

theorem rate_limiter_sliding_window:
  "(\<not> invalidIds req \<longrightarrow>
      (rateLimited (fst (actionWith cfg st req e)) \<longleftrightarrow>
         maxRequestsPerIP cfg \<le> length (ipRecent cfg st req e)
         \<or> maxRequestsPerSession cfg \<le> length (sessionRecent cfg st req e))
    \<and> (\<not> rateLimited (fst (actionWith cfg st req e)) \<longrightarrow>
         timestamps (rateLimitMap (snd (actionWith cfg st req e))) (clientIP req) =
           ipRecent cfg st req e @ [dateNow e]
       \<and> timestamps (sessionRateLimitMap (snd (actionWith cfg st req e))) (sessionIdOf req e) =
           sessionRecent cfg st req e @ [dateNow e])
    \<and> (rateLimited (fst (actionWith cfg st req e)) \<longrightarrow>
         timestamps (rateLimitMap (snd (actionWith cfg st req e))) (clientIP req) =
           timestamps (rateLimitMap (afterCleanup e st)) (clientIP req)
       \<and> timestamps (sessionRateLimitMap (snd (actionWith cfg st req e))) (sessionIdOf req e) =
           timestamps (sessionRateLimitMap (afterCleanup e st)) (sessionIdOf req e)))
   \<and> (\<not> mathRandom e < 0.1 \<longrightarrow>
        ipRecent cfg st req e =
          filter (\<lambda>t. dateNow e - t < windowMs cfg) (timestamps (rateLimitMap st) (clientIP req))
      \<and> sessionRecent cfg st req e =
          filter (\<lambda>t. dateNow e - t < windowMs cfg)
            (timestamps (sessionRateLimitMap st) (sessionIdOf req e)))
   \<and> (windowMs cfg = 60 * 1000 \<and> rateLimitMap st0 ip = None \<and> sessionRateLimitMap st0 sid = None
       \<and> (\<forall>(r, en) \<in> set rs. \<not> invalidIds r \<and> clientIP r = ip \<and> sessionIdOf r en = sid
              \<and> T \<le> dateNow en \<and> dateNow en < T + 60 * 1000
              \<and> (mathRandom en < 0.1 \<longrightarrow> cleanupNow en < T + 60 * 1000))
      \<longrightarrow> (\<forall>i < length rs. rateLimited (fst (votes cfg st0 rs) ! i) \<longleftrightarrow>
               min (maxRequestsPerIP cfg) (maxRequestsPerSession cfg) \<le> i)
        \<and> (\<not> invalidIds r' \<and> clientIP r' = ip \<and> sessionIdOf r' e' = sid
            \<and> 0 < maxRequestsPerIP cfg \<and> 0 < maxRequestsPerSession cfg
            \<and> (\<forall>(r, en) \<in> set rs. windowMs cfg \<le> dateNow e' - dateNow en)
           \<longrightarrow> \<not> rateLimited (fst (actionWith cfg (snd (votes cfg st0 rs)) r' e'))))
   \<and> (\<not> invalidIds req \<and> \<not> rateLimited (fst (action st req e)) \<longrightarrow>
        length (ipRecent sourceLimits st req e) < 30
      \<and> length (sessionRecent sourceLimits st req e) < 20)"
proof (intro conjI impI)
  assume valid: "\<not> invalidIds req"
  show "rateLimited (fst (actionWith cfg st req e)) \<longleftrightarrow>
         maxRequestsPerIP cfg \<le> length (ipRecent cfg st req e)
         \<or> maxRequestsPerSession cfg \<le> length (sessionRecent cfg st req e)"
    by (rule rateLimited_iff[OF valid])
  {
    assume adm: "\<not> rateLimited (fst (actionWith cfg st req e))"
    show "timestamps (rateLimitMap (snd (actionWith cfg st req e))) (clientIP req) =
           ipRecent cfg st req e @ [dateNow e]"
      by (rule admitted_timestamps(1)[OF valid adm])
    show "timestamps (sessionRateLimitMap (snd (actionWith cfg st req e))) (sessionIdOf req e) =
           sessionRecent cfg st req e @ [dateNow e]"
      by (rule admitted_timestamps(2)[OF valid adm])
  }
  {
    assume rej: "rateLimited (fst (actionWith cfg st req e))"
    show "timestamps (rateLimitMap (snd (actionWith cfg st req e))) (clientIP req) =
           timestamps (rateLimitMap (afterCleanup e st)) (clientIP req)"
      by (rule rejected_timestamps(1)[OF rej])
    show "timestamps (sessionRateLimitMap (snd (actionWith cfg st req e))) (sessionIdOf req e) =
           timestamps (sessionRateLimitMap (afterCleanup e st)) (sessionIdOf req e)"
      by (rule rejected_timestamps(2)[OF rej])
  }
next
  assume nc: "\<not> mathRandom e < 0.1"
  show "ipRecent cfg st req e =
          filter (\<lambda>t. dateNow e - t < windowMs cfg) (timestamps (rateLimitMap st) (clientIP req))"
    by (rule recent_without_cleanup(1)[OF nc])
  show "sessionRecent cfg st req e =
          filter (\<lambda>t. dateNow e - t < windowMs cfg)
            (timestamps (sessionRateLimitMap st) (sessionIdOf req e))"
    by (rule recent_without_cleanup(2)[OF nc])
next
  assume a: "windowMs cfg = 60 * 1000 \<and> rateLimitMap st0 ip = None \<and> sessionRateLimitMap st0 sid = None
       \<and> (\<forall>(r, en) \<in> set rs. \<not> invalidIds r \<and> clientIP r = ip \<and> sessionIdOf r en = sid
              \<and> T \<le> dateNow en \<and> dateNow en < T + 60 * 1000
              \<and> (mathRandom en < 0.1 \<longrightarrow> cleanupNow en < T + 60 * 1000))"
  then have W: "windowMs cfg = 60 * 1000"
    and i0: "timestamps (rateLimitMap st0) ip = []"
    and s0: "timestamps (sessionRateLimitMap st0) sid = []"
    by (simp_all add: timestamps_def)
  define Q where "Q t = (\<exists>(r, en) \<in> set rs. t = dateNow en)" for t
  have q0: "\<forall>t \<in> set []. T \<le> t \<and> Q t" by simp
  have rs: "\<forall>(r, en) \<in> set rs. \<not> invalidIds r \<and> clientIP r = ip \<and> sessionIdOf r en = sid
               \<and> T \<le> dateNow en \<and> dateNow en < T + 60 * 1000
               \<and> (mathRandom en < 0.1 \<longrightarrow> cleanupNow en < T + 60 * 1000) \<and> Q (dateNow en)"
    using a unfolding Q_def by fastforce
  note seq = votes_same_client[OF W i0 s0 q0 rs]
  from seq show "\<forall>i < length rs. rateLimited (fst (votes cfg st0 rs) ! i) \<longleftrightarrow>
               min (maxRequestsPerIP cfg) (maxRequestsPerSession cfg) \<le> i"
    by simp
  assume b: "\<not> invalidIds r' \<and> clientIP r' = ip \<and> sessionIdOf r' e' = sid
            \<and> 0 < maxRequestsPerIP cfg \<and> 0 < maxRequestsPerSession cfg
            \<and> (\<forall>(r, en) \<in> set rs. windowMs cfg \<le> dateNow e' - dateNow en)"
  have old: "Q t \<Longrightarrow> windowMs cfg \<le> dateNow e' - t" for t
    using b unfolding Q_def by fastforce
  have "\<forall>t \<in> set (timestamps (rateLimitMap (snd (votes cfg st0 rs))) (clientIP r')).
          windowMs cfg \<le> dateNow e' - t"
    using seq old b by blast
  moreover have "\<forall>t \<in> set (timestamps (sessionRateLimitMap (snd (votes cfg st0 rs))) (sessionIdOf r' e')).
          windowMs cfg \<le> dateNow e' - t"
    using seq old b by blast
  ultimately show "\<not> rateLimited (fst (actionWith cfg (snd (votes cfg st0 rs)) r' e'))"
    using b by (intro after_window_admitted) simp_all
next
  assume c: "\<not> invalidIds req \<and> \<not> rateLimited (fst (action st req e))"
  then have "\<not> (maxRequestsPerIP sourceLimits \<le> length (ipRecent sourceLimits st req e)
         \<or> maxRequestsPerSession sourceLimits \<le> length (sessionRecent sourceLimits st req e))"
    using rateLimited_iff[of req sourceLimits st e] by (simp add: action_def)
  then show "length (ipRecent sourceLimits st req e) < 30"
    and "length (sessionRecent sourceLimits st req e) < 20"
    by (simp_all add: sourceLimits_simps)
qed

text \<open>
  The theorem at a maximum of 3: four votes of one client within three seconds, and a fifth
  a minute after the last; and at the first vote of a client under the limits of the source.
\<close>

theorem rate_limiter_sliding_window_witness:
  "\<not> rateLimited (fst (votes limits3 server0 burst) ! 0)
   \<and> \<not> rateLimited (fst (votes limits3 server0 burst) ! 1)
   \<and> \<not> rateLimited (fst (votes limits3 server0 burst) ! 2)
   \<and> rateLimited (fst (votes limits3 server0 burst) ! 3)
   \<and> \<not> rateLimited (fst (actionWith limits3 (snd (votes limits3 server0 burst)) voteAB' (envAt 64000)))
   \<and> \<not> rateLimited (fst (action server0 voteAB env0))
   \<and> timestamps (rateLimitMap (snd (action server0 voteAB env0))) ''203.0.113.7'' = [1000]
   \<and> timestamps (sessionRateLimitMap (snd (action server0 voteAB env0))) ''u-1'' = [1000]"
proof -
  have fresh: "rateLimitMap server0 ''203.0.113.7'' = None" "sessionRateLimitMap server0 ''u-1'' = None"
    by (simp_all add: server0_def)
  have len: "length burst = 4" by (simp add: burst_def)
  have reqs: "\<forall>(r, en) \<in> set burst. \<not> invalidIds r \<and> clientIP r = ''203.0.113.7''
      \<and> sessionIdOf r en = ''u-1'' \<and> 1000 \<le> dateNow en \<and> dateNow en < 1000 + 60 * 1000
      \<and> (mathRandom en < 0.1 \<longrightarrow> cleanupNow en < 1000 + 60 * 1000)"
    by (simp add: burst_def voteAB'_valid)
  have later: "\<forall>(r, en) \<in> set burst. windowMs limits3 \<le> dateNow (envAt 64000) - dateNow en"
    by (simp add: burst_def)
  note t3 = rate_limiter_sliding_window[where cfg = limits3 and ?st0.0 = server0
      and ip = "''203.0.113.7''" and sid = "''u-1''" and rs = burst and T = 1000
      and r' = voteAB' and e' = "envAt 64000" and req = voteAB and st = server0 and e = env0]
  have hyp: "windowMs limits3 = 60 * 1000 \<and> rateLimitMap server0 ''203.0.113.7'' = None
       \<and> sessionRateLimitMap server0 ''u-1'' = None
       \<and> (\<forall>(r, en) \<in> set burst. \<not> invalidIds r \<and> clientIP r = ''203.0.113.7''
              \<and> sessionIdOf r en = ''u-1''
              \<and> 1000 \<le> dateNow en \<and> dateNow en < 1000 + 60 * 1000
              \<and> (mathRandom en < 0.1 \<longrightarrow> cleanupNow en < 1000 + 60 * 1000))"
    using fresh reqs by simp
  note both = mp[OF t3[THEN conjunct2, THEN conjunct2, THEN conjunct1] hyp]
  have seq: "\<forall>i < length burst.
      rateLimited (fst (votes limits3 server0 burst) ! i) \<longleftrightarrow>
        min (maxRequestsPerIP limits3) (maxRequestsPerSession limits3) \<le> i"
    by (rule both[THEN conjunct1])
  have hyp2: "\<not> invalidIds voteAB' \<and> clientIP voteAB' = ''203.0.113.7''
      \<and> sessionIdOf voteAB' (envAt 64000) = ''u-1''
      \<and> 0 < maxRequestsPerIP limits3 \<and> 0 < maxRequestsPerSession limits3
      \<and> (\<forall>(r, en) \<in> set burst. windowMs limits3 \<le> dateNow (envAt 64000) - dateNow en)"
    using later voteAB'_valid by simp
  have after: "\<not> rateLimited (fst (actionWith limits3 (snd (votes limits3 server0 burst)) voteAB' (envAt 64000)))"
    by (rule mp[OF both[THEN conjunct2] hyp2])
  note t1 = mp[OF rate_limiter_sliding_window[where cfg = sourceLimits and req = voteAB
      and st = server0 and e = env0 and ?st0.0 = server0 and ip = "[]" and sid = "[]" and rs = "[]"
      and T = 0 and r' = voteAB and e' = env0, THEN conjunct1] voteAB_valid]
  have nolim: "\<not> rateLimited (fst (actionWith sourceLimits server0 voteAB env0))"
    unfolding t1[THEN conjunct1] by (simp add: server0_fresh sourceLimits_simps)
  with t1
  have stamps: "timestamps (rateLimitMap (snd (actionWith sourceLimits server0 voteAB env0))) (clientIP voteAB)
        = ipRecent sourceLimits server0 voteAB env0 @ [dateNow env0]"
      "timestamps (sessionRateLimitMap (snd (actionWith sourceLimits server0 voteAB env0)))
          (sessionIdOf voteAB env0)
        = sessionRecent sourceLimits server0 voteAB env0 @ [dateNow env0]"
    by blast+
  have sid: "sessionIdOf voteAB env0 = ''u-1''" by (simp add: sessionIdOf_def voteAB_def env0_def)
  have now: "dateNow env0 = 1000" by (simp add: env0_def)
  show ?thesis
    using seq after nolim stamps
    by (simp add: len action_def server0_fresh sid now)
qed

text \<open>
  C8, on the code. A vote whose loser id has no row: the lookup returns \<^verbatim>\<open>null\<close> and the
  \<^verbatim>\<open>try\<close> block throws "Images not found", but the \<^verbatim>\<open>catch\<close> of the same function replaces
  it by "Failed to update ratings. Please try again.", the error that a failing store
  write gives. In both cases the table is as it was.
\<close>

theorem not_found_reported_as_generic_failure:
  "findUnique (images server0) (loserIdField voteGone) = Inr None
   \<and> tryBlock env0 (images server0) (winnerIdField voteGone) (loserIdField voteGone) =
       Inl (Error ''Images not found'')
   \<and> fst (action server0 voteGone env0) =
       Inl (Error ''Failed to update ratings. Please try again.'')
   \<and> fst (action server0 voteAB envWriteFails) =
       Inl (Error ''Failed to update ratings. Please try again.'')
   \<and> images (snd (action server0 voteGone env0)) = images server0
   \<and> images (snd (action server0 voteAB envWriteFails)) = images server0"
proof -
  have g: "findUnique (images server0) (loserIdField voteGone) = Inr None"
    by (simp add: findUnique_def isIntegerId_def voteGone_def server0_def idMatches_def
        img1_def img2_def img3_def)
  have w: "findUnique (images server0) (winnerIdField voteGone) = Inr (Some img1)"
    using server0_findA by (simp add: voteGone_def)
  have t: "tryBlock env0 (images server0) (winnerIdField voteGone) (loserIdField voteGone) =
       Inl (Error ''Images not found'')"
    by (simp add: tryBlock_def g w) (simp add: env0_def)
  have a: "action server0 voteGone env0 =
      (Inl (Error ''Failed to update ratings. Please try again.''),
       recorded sourceLimits server0 voteGone env0)"
    using server0_admits[OF voteGone_valid, of env0] by (simp add: t)
  have t2: "tryBlock envWriteFails (images server0) (winnerIdField voteAB) (loserIdField voteAB) =
       Inl PrismaClientError"
    by (simp add: tryBlock_def server0_findA server0_findB transaction_def split: prod.split)
       (simp add: envWriteFails_def env0_def)
  have b: "action server0 voteAB envWriteFails =
      (Inl (Error ''Failed to update ratings. Please try again.''),
       recorded sourceLimits server0 voteAB envWriteFails)"
    using server0_admits[OF voteAB_valid, of envWriteFails] by (simp add: t2)
  show ?thesis using g t a b by simp
qed

text \<open>
  C9, as the code has it. A vote in which either id is \<^verbatim>\<open>NaN\<close> or the two ids are equal
  fails with the error "Invalid image IDs", and the state (table and both rate-limit maps)
  is as it was; and only such a vote fails with that error.
\<close>

theorem invalid_ids_rejected_before_any_change:
  "(isNaN (winnerIdField req) \<or> isNaN (loserIdField req) \<or> winnerIdField req = loserIdField req
      \<longrightarrow> action st req e = (Inl (Error ''Invalid image IDs''), st))
   \<and> (fst (action st req e) = Inl (Error ''Invalid image IDs'')
      \<longrightarrow> isNaN (winnerIdField req) \<or> isNaN (loserIdField req)
          \<or> winnerIdField req = loserIdField req)"
  using actionWith_invalid[of req sourceLimits st e] actionWith_invalid_iff[of sourceLimits st req e]
  by (simp add: action_def invalidIds_iff)

text \<open>
  The theorem at a vote with a field that is not a number, at a vote for one image against
  itself, and at the example vote, which is not rejected so.
\<close>

theorem invalid_ids_rejected_before_any_change_witness:
  "isNaN (winnerIdField voteNaN)
   \<and> action server0 voteNaN env0 = (Inl (Error ''Invalid image IDs''), server0)
   \<and> winnerIdField voteSame = loserIdField voteSame
   \<and> action server1 voteSame env1 = (Inl (Error ''Invalid image IDs''), server1)
   \<and> fst (action server0 voteAB env0) \<noteq> Inl (Error ''Invalid image IDs'')
   \<and> winnerIdField voteAB \<noteq> loserIdField voteAB"
proof -
  have n: "isNaN (winnerIdField voteNaN)" by (simp add: voteNaN_def)
  have s: "winnerIdField voteSame = loserIdField voteSame" by (simp add: voteSame_def voteAB_def)
  have v: "\<not> (isNaN (winnerIdField voteAB) \<or> isNaN (loserIdField voteAB)
      \<or> winnerIdField voteAB = loserIdField voteAB)" by (simp add: voteAB_def)
  show ?thesis
    using invalid_ids_rejected_before_any_change[of voteNaN server0 env0]
      invalid_ids_rejected_before_any_change[of voteSame server1 env1]
      invalid_ids_rejected_before_any_change[of voteAB server0 env0] n s v
    by blast
qed

text \<open>
  C9 as it is stated fails for the form value "1.5": it is a number, so it passes the
  validation although it is not an integer; the request is recorded by the rate limiter,
  and the vote ends in the error of the \<^verbatim>\<open>catch\<close> block.
\<close>

theorem fractional_id_counterexample:
  "winnerIdField voteFraction = Fin (3 / 2) \<and> \<not> isIntegerId (Fin (3 / 2))
   \<and> fst (action server0 voteFraction env0) =
       Inl (Error ''Failed to update ratings. Please try again.'')
   \<and> fst (action server0 voteFraction env0) \<noteq> Inl (Error ''Invalid image IDs'')
   \<and> rateLimitMap server0 ''203.0.113.7'' = None
   \<and> rateLimitMap (snd (action server0 voteFraction env0)) ''203.0.113.7'' =
       Some \<lparr>requests = [1000], lastCleanup = 1000\<rparr>"
proof -
  have f: "\<not> isIntegerId (Fin (3 / 2))"
    by (simp add: isIntegerId_def)
  have w: "winnerIdField voteFraction = Fin (3 / 2)" by (simp add: voteFraction_def)
  have t: "tryBlock env0 (images server0) (winnerIdField voteFraction) (loserIdField voteFraction)
      = Inl PrismaClientError"
    using f by (simp add: tryBlock_def findUnique_def w env0_def)
  have a: "action server0 voteFraction env0 =
      (Inl (Error ''Failed to update ratings. Please try again.''),
       recorded sourceLimits server0 voteFraction env0)"
    using server0_admits[OF voteFraction_valid, of env0] by (simp add: t)
  have r: "rateLimitMap (snd (action server0 voteFraction env0)) ''203.0.113.7'' =
       Some \<lparr>requests = [1000], lastCleanup = 1000\<rparr>"
    using server0_recorded_ip[of voteFraction] by (simp add: a)
  have z: "rateLimitMap server0 ''203.0.113.7'' = None" by (simp add: server0_def)
  show ?thesis using f w a r z by simp
qed


text \<open>
  C10. A successful vote keeps the number and order of the rows, the id, name and url of
  every row, and every row whose id is neither the winner's nor the loser's as it was.
\<close>

theorem vote_writes_only_two_ratings:
  assumes "fst (action st req e) = Inr resp"
  shows "length (images (snd (action st req e))) = length (images st)
    \<and> (\<forall>k < length (images st).
          image_id (images (snd (action st req e)) ! k) = image_id (images st ! k)
        \<and> name (images (snd (action st req e)) ! k) = name (images st ! k)
        \<and> url (images (snd (action st req e)) ! k) = url (images st ! k)
        \<and> (\<not> idMatches (winnerIdField req) (images st ! k)
             \<and> \<not> idMatches (loserIdField req) (images st ! k)
             \<longrightarrow> images (snd (action st req e)) ! k = images st ! k))"
proof -
  from assms have ok: "fst (actionWith sourceLimits st req e) = Inr resp"
    by (simp add: action_def)
  obtain wi li :: image where "images (snd (actionWith sourceLimits st req e)) =
         map (setElo (loserIdField req) (snd (eloUpdate (elo wi) (elo li))))
           (map (setElo (winnerIdField req) (fst (eloUpdate (elo wi) (elo li)))) (images st))"
    using ok by (rule actionWith_success) blast
  then have db: "images (snd (action st req e)) =
         map (setElo (loserIdField req) (snd (eloUpdate (elo wi) (elo li))))
           (map (setElo (winnerIdField req) (fst (eloUpdate (elo wi) (elo li)))) (images st))"
    by (simp add: action_def)
  show ?thesis unfolding db by (simp add: setElo_unmatched)
qed

text \<open>The theorem at the example vote: the third image is untouched.\<close>

theorem vote_writes_only_two_ratings_witness:
  "fst (action server0 voteAB env0) = Inr (JsonSuccess ''u-1'')
   \<and> length (images (snd (action server0 voteAB env0))) = 3
   \<and> image_id (images (snd (action server0 voteAB env0)) ! 0) = 1
   \<and> name (images (snd (action server0 voteAB env0)) ! 0) = ''a''
   \<and> url (images (snd (action server0 voteAB env0)) ! 1) = ''/external-images/b.webp''
   \<and> \<not> idMatches (Fin 1) img3 \<and> \<not> idMatches (Fin 2) img3
   \<and> images (snd (action server0 voteAB env0)) ! 2 = img3"
proof -
  have f1: "fst (action server0 voteAB env0) = Inr (JsonSuccess ''u-1'')"
    by (simp add: server0_vote)
  have len: "length (images server0) = 3" by (simp add: server0_def)
  have ids: "winnerIdField voteAB = Fin 1" "loserIdField voteAB = Fin 2" by (simp_all add: voteAB_def)
  have rows: "images server0 ! 0 = img1" "images server0 ! 1 = img2" "images server0 ! 2 = img3"
    by (simp_all add: server0_def)
  have c: "\<not> idMatches (Fin 1) img3" "\<not> idMatches (Fin 2) img3"
    by (simp_all add: idMatches_def img3_def)
  have fld: "image_id img1 = 1" "name img1 = ''a''" "url img2 = ''/external-images/b.webp''"
    by (simp_all add: img1_def img2_def)
  from vote_writes_only_two_ratings[OF f1] have
    l: "length (images (snd (action server0 voteAB env0))) = 3"
    and k: "\<And>k. k < 3 \<Longrightarrow>
          image_id (images (snd (action server0 voteAB env0)) ! k) = image_id (images server0 ! k)
        \<and> name (images (snd (action server0 voteAB env0)) ! k) = name (images server0 ! k)
        \<and> url (images (snd (action server0 voteAB env0)) ! k) = url (images server0 ! k)
        \<and> (\<not> idMatches (Fin 1) (images server0 ! k)
             \<and> \<not> idMatches (Fin 2) (images server0 ! k)
             \<longrightarrow> images (snd (action server0 voteAB env0)) ! k = images server0 ! k)"
    unfolding len ids by blast+
  show ?thesis
    using f1 l k[of 0] k[of 1] k[of 2] c by (simp add: server0_def fld)
qed

end
